(* ===== verification/Prelude.thy ===== *)
theory Prelude
  imports Main "HOL-Library.AList" "HOL-Library.Char_ord" "HOL-Library.List_Lexorder"
    "HOL-Library.Multiset"
begin

text \<open>
  Shared vocabulary of the development: Go's \<^verbatim>\<open>time.Time\<close> and \<^verbatim>\<open>time.Duration\<close>,
  Go maps, and the generic lemmas on lists, options and maps the components use.

  \<^item> A \<^verbatim>\<open>time.Time\<close> is an \<open>int\<close>: nanoseconds since the zero time of Go (January 1, year
    1, UTC), so the zero value of the type is \<open>0\<close> and \<^verbatim>\<open>IsZero\<close> is equality with \<open>0\<close>.
    The monotonic reading is not represented.
  \<^item> A \<^verbatim>\<open>time.Duration\<close> is an \<open>int\<close> of nanoseconds. \<^verbatim>\<open>Time.Sub\<close> saturates at the range
    of \<^verbatim>\<open>int64\<close>, and so does \<open>time_sub\<close>.
  \<^item> A Go map is an association list with distinct keys. Its order stands for the order in
    which one \<^verbatim>\<open>range\<close> statement visits the map, which Go leaves open: a theorem about every
    list is a theorem about every iteration order.
\<close>

section \<open>Time and durations\<close>

type_synonym gotime = int
type_synonym duration = int

abbreviation (input) zero_time :: gotime where
  "zero_time \<equiv> 0"

abbreviation (input) max_duration :: duration where
  "max_duration \<equiv> 9223372036854775807"

abbreviation (input) min_duration :: duration where
  "min_duration \<equiv> - 9223372036854775808"

abbreviation (input) second :: duration where
  "second \<equiv> 1000000000"

definition time_sub :: "gotime \<Rightarrow> gotime \<Rightarrow> duration" where
  "time_sub t u = max min_duration (min max_duration (t - u))"

text \<open>A \<^verbatim>\<open>time.Time\<close> converted with \<^verbatim>\<open>UnixMilli\<close>, and back with \<^verbatim>\<open>time.UnixMilli\<close>.
  The Unix epoch is 62135596800 seconds after the zero time; \<^verbatim>\<open>UnixMilli\<close> rounds down.\<close>

definition unix_milli :: "gotime \<Rightarrow> int" where
  "unix_milli t = (t - 62135596800 * second) div 1000000"

definition time_of_unix_milli :: "int \<Rightarrow> gotime" where
  "time_of_unix_milli ms = 62135596800 * second + ms * 1000000"

text \<open>\<^verbatim>\<open>Time.Truncate\<close> rounds down to a multiple of \<open>d\<close> since the zero time.\<close>

definition time_truncate :: "gotime \<Rightarrow> duration \<Rightarrow> gotime" where
  "time_truncate t d = (if d \<le> 0 then t else t - t mod d)"

lemma time_sub_self [simp]: "time_sub t t = 0"
  by (simp add: time_sub_def)

lemma time_sub_nonneg: "u \<le> t \<Longrightarrow> 0 \<le> time_sub t u"
  by (simp add: time_sub_def)

lemma time_sub_pos_iff: "0 < time_sub t u \<longleftrightarrow> u < t"
  by (auto simp: time_sub_def)

lemma time_sub_eq_0_iff [simp]: "time_sub t u = 0 \<longleftrightarrow> t = u"
  by (auto simp: time_sub_def)

lemma time_sub_exact:
  "min_duration \<le> t - u \<Longrightarrow> t - u \<le> max_duration \<Longrightarrow> time_sub t u = t - u"
  by (simp add: time_sub_def)

lemma time_sub_mono: "t \<le> t' \<Longrightarrow> time_sub t u \<le> time_sub t' u"
  by (auto simp: time_sub_def)

lemma time_sub_antimono: "u' \<le> u \<Longrightarrow> time_sub t u \<le> time_sub t u'"
  by (auto simp: time_sub_def)

lemma time_sub_ge_iff: "d \<le> max_duration \<Longrightarrow> min_duration < d \<Longrightarrow> d \<le> time_sub t u \<longleftrightarrow> d \<le> t - u"
  by (auto simp: time_sub_def)

lemma time_sub_less_iff: "d \<le> max_duration \<Longrightarrow> min_duration < d \<Longrightarrow> time_sub t u < d \<longleftrightarrow> t - u < d"
  by (auto simp: time_sub_def)

lemma time_sub_gt_iff: "d < max_duration \<Longrightarrow> min_duration \<le> d \<Longrightarrow> d < time_sub t u \<longleftrightarrow> d < t - u"
  by (auto simp: time_sub_def)

lemma unix_milli_of_unix_milli [simp]: "unix_milli (time_of_unix_milli ms) = ms"
  by (simp add: unix_milli_def time_of_unix_milli_def)

lemma time_of_unix_milli_inj [simp]: "time_of_unix_milli a = time_of_unix_milli b \<longleftrightarrow> a = b"
  by (metis unix_milli_of_unix_milli)

lemma time_of_unix_milli_le: "time_of_unix_milli (unix_milli t) \<le> t"
  by (simp add: unix_milli_def time_of_unix_milli_def)

section \<open>Go maps\<close>

type_synonym ('k, 'v) gomap = "('k \<times> 'v) list"

abbreviation gm_wf :: "('k, 'v) gomap \<Rightarrow> bool" where
  "gm_wf m \<equiv> distinct (map fst m)"

abbreviation gm_set :: "'k \<Rightarrow> 'v \<Rightarrow> ('k, 'v) gomap \<Rightarrow> ('k, 'v) gomap" where
  "gm_set \<equiv> AList.update"

abbreviation gm_del :: "'k \<Rightarrow> ('k, 'v) gomap \<Rightarrow> ('k, 'v) gomap" where
  "gm_del \<equiv> AList.delete"

definition gm_mem :: "'k \<Rightarrow> ('k, 'v) gomap \<Rightarrow> bool" where
  "gm_mem k m = (map_of m k \<noteq> None)"

text \<open>\<^verbatim>\<open>m[k]\<close> of a missing key is the zero value \<open>z\<close> of the element type.\<close>

definition gm_get_or :: "'v \<Rightarrow> ('k, 'v) gomap \<Rightarrow> 'k \<Rightarrow> 'v" where
  "gm_get_or z m k = (case map_of m k of None \<Rightarrow> z | Some v \<Rightarrow> v)"

named_theorems gomap_simps

lemma map_of_gm_set [gomap_simps, simp]: "map_of (gm_set k v m) = (map_of m)(k \<mapsto> v)"
  by (rule update_conv')

lemma map_of_gm_del [gomap_simps, simp]: "map_of (gm_del k m) = (map_of m)(k := None)"
  by (rule delete_conv')

lemma gm_wf_set [intro]: "gm_wf m \<Longrightarrow> gm_wf (gm_set k v m)"
  by (rule distinct_update)

lemma gm_wf_del [intro]: "gm_wf m \<Longrightarrow> gm_wf (gm_del k m)"
  by (rule distinct_delete)

lemma gm_wf_filter [intro]: "gm_wf m \<Longrightarrow> gm_wf (filter P m)"
  by (rule distinct_map_filter)

lemma gm_mem_iff: "gm_mem k m \<longleftrightarrow> k \<in> fst ` set m"
  by (simp add: gm_mem_def map_of_eq_None_iff)

lemma map_of_filter_wf [gomap_simps]:
  "gm_wf m \<Longrightarrow> map_of (filter P m) k =
     (case map_of m k of None \<Rightarrow> None | Some v \<Rightarrow> if P (k, v) then Some v else None)"
proof (induction m)
  case Nil
  then show ?case by simp
next
  case (Cons p m)
  obtain a b where p: "p = (a, b)" by fastforce
  from Cons.prems have a: "map_of m a = None" by (simp add: p map_of_eq_None_iff)
  from Cons show ?case by (auto simp: p a)
qed

lemma map_of_map_val [gomap_simps]:
  "map_of (map (\<lambda>(k, v). (k, f k v)) m) k = map_option (f k) (map_of m k)"
  by (induction m) auto

lemma gm_get_or_set [simp]:
  "gm_get_or z (gm_set k v m) k' = (if k' = k then v else gm_get_or z m k')"
  by (simp add: gm_get_or_def)

lemma gm_get_or_del [simp]:
  "gm_get_or z (gm_del k m) k' = (if k' = k then z else gm_get_or z m k')"
  by (simp add: gm_get_or_def)

lemma map_of_eqI_perm:
  assumes "gm_wf m" and "gm_wf m'" and "set m = set m'"
  shows "map_of m = map_of m'"
  using assms by (metis map_of_inject_set)

lemma gm_wf_fold_gm_set: "gm_wf m \<Longrightarrow> gm_wf (fold (\<lambda>x. gm_set (f x) (g x)) l m)"
  by (induction l arbitrary: m) (auto simp: gm_wf_set)

lemma map_of_fold_gm_set_pairs:
  "gm_wf m \<Longrightarrow> map_of (fold (\<lambda>(k, v). gm_set k v) m acc) k =
     (case map_of m k of Some v \<Rightarrow> Some v | None \<Rightarrow> map_of acc k)"
proof (induction m arbitrary: acc)
  case (Cons kv m)
  obtain k' v' where kv: "kv = (k', v')" by (cases kv)
  have "map_of m k' = None" using Cons.prems kv by (simp add: map_of_eq_None_iff)
  then show ?case using Cons kv by (auto split: option.splits)
qed simp

lemma map_of_fold_gm_del: "map_of (fold gm_del ks m) k = (if k \<in> set ks then None else map_of m k)"
  by (induction ks arbitrary: m) auto

lemma gm_wf_fold_gm_del: "gm_wf m \<Longrightarrow> gm_wf (fold gm_del ks m)"
  by (induction ks arbitrary: m) (auto simp: gm_wf_del)

section \<open>Lists and options\<close>

lemma sum_list_zero_iff_nat: "sum_list xs = (0::nat) \<longleftrightarrow> (\<forall>x\<in>set xs. x = 0)"
  by (induction xs) auto

lemma fold_invariant_set:
  assumes "P s" and "\<And>x s. x \<in> set xs \<Longrightarrow> P s \<Longrightarrow> P (f x s)"
  shows "P (fold f xs s)"
  using assms by (induction xs arbitrary: s) auto

end
