(* ===== verification/GoFloat.thy ===== *)
theory GoFloat
  imports Prelude "HOL-Library.Log_Nat" Complex_Main
begin

text \<open>
  Go's \<^verbatim>\<open>float64\<close> as far as the program uses it. A value is a NaN with its bit pattern, an
  infinity, or a finite number given as the rational it denotes; the sign of zero is not
  represented. Comparisons are those of IEEE 754 (a NaN compares false with everything, itself
  included). Arithmetic on finite values is exact rational arithmetic followed by \<open>f64_round\<close>,
  the rounding to nearest, ties to even, of the 53-bit format with its exponent range.
\<close>

section \<open>Values and comparisons\<close>

datatype float64 = FNaN int | FNegInf | FFin rat | FPosInf

text \<open>\<^verbatim>\<open>math.NaN()\<close> and Prometheus' \<^verbatim>\<open>value.StaleNaN\<close>, by their bit patterns.\<close>

definition math_NaN :: float64 where
  "math_NaN = FNaN 0x7FF8000000000001"

definition StaleNaN :: float64 where
  "StaleNaN = FNaN 0x7FF0000000000002"

fun isNaN :: "float64 \<Rightarrow> bool" where
  "isNaN (FNaN _) = True"
| "isNaN _ = False"

fun f_lt :: "float64 \<Rightarrow> float64 \<Rightarrow> bool" where
  "f_lt (FNaN _) _ = False"
| "f_lt _ (FNaN _) = False"
| "f_lt FNegInf y = (y \<noteq> FNegInf)"
| "f_lt (FFin x) (FFin y) = (x < y)"
| "f_lt (FFin x) FPosInf = True"
| "f_lt (FFin x) FNegInf = False"
| "f_lt FPosInf _ = False"

definition f_eq :: "float64 \<Rightarrow> float64 \<Rightarrow> bool" where
  "f_eq x y = (\<not> isNaN x \<and> x = y)"

lemma f_eq_refl_iff: "f_eq x x \<longleftrightarrow> \<not> isNaN x"
  by (cases x) (simp_all add: f_eq_def)

definition f_le :: "float64 \<Rightarrow> float64 \<Rightarrow> bool" where
  "f_le x y = (f_lt x y \<or> f_eq x y)"

lemma f_lt_NaN [simp]: "isNaN x \<Longrightarrow> \<not> f_lt x y" "isNaN y \<Longrightarrow> \<not> f_lt x y"
  by (cases x; simp) (cases x; cases y; simp)

lemma f_lt_irrefl [simp]: "\<not> f_lt x x"
  by (cases x) auto

lemma f_lt_trans: "f_lt x y \<Longrightarrow> f_lt y z \<Longrightarrow> f_lt x z"
  by (cases x; cases y; cases z) auto

lemma f_lt_asym: "f_lt x y \<Longrightarrow> \<not> f_lt y x"
  by (cases x; cases y) auto

lemma f_lt_total: "\<not> isNaN x \<Longrightarrow> \<not> isNaN y \<Longrightarrow> f_lt x y \<or> x = y \<or> f_lt y x"
  by (cases x; cases y) auto

lemma f_le_total: "\<not> isNaN x \<Longrightarrow> \<not> isNaN y \<Longrightarrow> \<not> f_lt x y \<longleftrightarrow> f_le y x"
  by (auto simp: f_le_def f_eq_def dest: f_lt_total f_lt_asym)

lemma f_lt_le_trans: "f_lt x y \<Longrightarrow> f_le y z \<Longrightarrow> f_lt x z"
  by (auto simp: f_le_def f_eq_def dest: f_lt_trans)

lemma isNaN_math_NaN [simp]: "isNaN math_NaN"
  by (simp add: math_NaN_def)

lemma isNaN_StaleNaN [simp]: "isNaN StaleNaN"
  by (simp add: StaleNaN_def)

section \<open>Rounding to the 53-bit format\<close>

definition pow2 :: "int \<Rightarrow> rat" where
  "pow2 e = (if 0 \<le> e then 2 ^ nat e else 1 / 2 ^ nat (- e))"

text \<open>\<open>ilog2 x\<close> is the exponent \<open>e\<close> with \<open>2\<^sup>e \<le> x < 2\<^sup>e\<^sup>+\<^sup>1\<close>, for \<open>0 < x\<close>.\<close>

definition ilog2 :: "rat \<Rightarrow> int" where
  "ilog2 x =
     (let (p, q) = quotient_of x;
          e = bitlen p - bitlen q
      in if pow2 e \<le> x then e else e - 1)"

definition round_half_even :: "rat \<Rightarrow> int" where
  "round_half_even x =
     (let n = \<lfloor>x\<rfloor>; d = x - of_int n
      in if d < 1 / 2 then n else if 1 / 2 < d then n + 1 else if even n then n else n + 1)"

definition f64_round :: "rat \<Rightarrow> float64" where
  "f64_round x =
     (if x = 0 then FFin 0
      else let u = pow2 (max (ilog2 \<bar>x\<bar>) (- 1022) - 52);
               y = of_int (round_half_even (x / u)) * u
           in if 2 ^ 1024 \<le> y then FPosInf else if y \<le> - (2 ^ 1024) then FNegInf else FFin y)"

lemma round_half_even_of_int [simp]: "round_half_even (of_int n) = n"
  by (simp add: round_half_even_def)

lemma round_half_even_dist: "\<bar>of_int (round_half_even x) - x\<bar> \<le> 1 / 2"
proof -
  define d where "d = x - of_int \<lfloor>x\<rfloor>"
  have d: "0 \<le> d" "d < 1"
    unfolding d_def by linarith+
  have x: "x = of_int \<lfloor>x\<rfloor> + d" by (simp add: d_def)
  show ?thesis
    unfolding round_half_even_def Let_def d_def [symmetric]
    using d x by (auto simp: abs_if)
qed

lemma pow2_pos [simp]: "0 < pow2 e"
  by (simp add: pow2_def)

lemma pow2_neq_0 [simp]: "pow2 e \<noteq> 0"
  using pow2_pos [of e] by (simp del: pow2_pos)

lemma pow2_numeral [simp]: "pow2 (numeral k) = 2 ^ numeral k"
  by (simp add: pow2_def)

lemma pow2_add: "pow2 (a + b) = pow2 a * pow2 b"
proof -
  have *: "pow2 e = power_int 2 e" for e
    by (auto simp: pow2_def power_int_def field_simps)
  show ?thesis by (simp add: * power_int_add)
qed

lemma pow2_of_nat [simp]: "pow2 (int n) = 2 ^ n"
  by (simp add: pow2_def)

lemma pow2_of_nat': "pow2 (int n) = of_nat (2 ^ n)"
  by simp

lemma pow2_pred: "1 \<le> n \<Longrightarrow> pow2 (int n - 1) = of_nat (2 ^ (n - 1))"
  by (metis of_nat_1 of_nat_diff pow2_of_nat')

lemma pow2_0 [simp]: "pow2 0 = 1"
  by (simp add: pow2_def)

lemma pow2_1 [simp]: "pow2 1 = 2"
  by (simp add: pow2_def)

lemma pow2_mono: "a \<le> b \<Longrightarrow> pow2 a \<le> pow2 b"
proof -
  assume "a \<le> b"
  then obtain n where b: "b = a + int n"
    using zle_iff_zadd by blast
  have "pow2 a * 1 \<le> pow2 a * 2 ^ n"
    by (rule mult_left_mono) (simp_all add: less_imp_le)
  then show ?thesis by (simp add: b pow2_add)
qed

text \<open>The exponent estimate: the bit lengths of numerator and denominator decide it up to one.\<close>

lemma ilog2_bounds:
  assumes "0 < x"
  shows "pow2 (ilog2 x) \<le> x" and "x < pow2 (ilog2 x + 1)"
proof -
  obtain p q where pq: "quotient_of x = (p, q)" by fastforce
  define np where "np = nat p"
  define nq where "nq = nat q"
  have q: "0 < q" using pq by (rule quotient_of_denom_pos)
  have x: "x = of_int p / of_int q" using pq by (rule quotient_of_div)
  with assms q have p: "0 < p" by (simp add: zero_less_divide_iff)
  have xn: "x = of_nat np / of_nat nq"
    using p q by (simp add: x np_def nq_def)
  have np: "0 < np" and nq: "0 < nq" using p q by (simp_all add: np_def nq_def)
  let ?a = "floorlog 2 np" and ?b = "floorlog 2 nq"
  have a: "2 ^ (?a - 1) \<le> np" "np < 2 ^ ?a" and b: "2 ^ (?b - 1) \<le> nq" "nq < 2 ^ ?b"
    using floorlog_bounds [of np 2] floorlog_bounds [of nq 2] np nq by auto
  have a1: "1 \<le> ?a" and b1: "1 \<le> ?b"
    using np nq by (auto simp: floorlog_eq_zero_iff Suc_le_eq intro: gr0I)
  define e where "e = int ?a - int ?b"
  have ra: "pow2 (int ?a - 1) \<le> of_nat np" "of_nat np < pow2 (int ?a)"
    using a a1 by (simp_all add: pow2_pred pow2_of_nat' del: of_nat_power)
  have rb: "pow2 (int ?b - 1) \<le> of_nat nq" "of_nat nq < pow2 (int ?b)"
    using b b1 by (simp_all add: pow2_pred pow2_of_nat' del: of_nat_power)
  have nq': "(0::rat) < of_nat nq" using nq by simp
  have "pow2 (e - 1) * of_nat nq \<le> pow2 (e - 1) * pow2 (int ?b)"
    using rb by (simp add: less_imp_le)
  also have "\<dots> = pow2 (int ?a - 1)" by (simp add: pow2_add [symmetric] e_def del: pow2_of_nat)
  also have "\<dots> \<le> of_nat np" by (rule ra)
  finally have lo: "pow2 (e - 1) \<le> x"
    using nq' by (simp add: xn pos_le_divide_eq)
  have "of_nat np < pow2 (int ?a)" by (rule ra)
  also have "\<dots> = pow2 (e + 1) * pow2 (int ?b - 1)" by (simp add: pow2_add [symmetric] e_def del: pow2_of_nat)
  also have "\<dots> \<le> pow2 (e + 1) * of_nat nq" using rb by (simp add: less_imp_le)
  finally have hi: "x < pow2 (e + 1)"
    using nq' by (simp add: xn pos_divide_less_eq)
  have il: "ilog2 x = (if pow2 e \<le> x then e else e - 1)"
    by (simp add: ilog2_def pq Let_def e_def np_def nq_def bitlen_def)
  show "pow2 (ilog2 x) \<le> x" and "x < pow2 (ilog2 x + 1)"
    using lo hi by (auto simp: il)
qed

lemma round_half_even_mono_0: "0 \<le> x \<Longrightarrow> 0 \<le> round_half_even x"
  by (auto simp: round_half_even_def Let_def)

lemma f64_round_nonneg:
  assumes "0 \<le> x"
  shows "f64_round x = FPosInf \<or> (\<exists>y. 0 \<le> y \<and> f64_round x = FFin y)"
proof -
  let ?u = "pow2 (max (ilog2 \<bar>x\<bar>) (- 1022) - 52)"
  have "0 \<le> round_half_even (x / ?u)"
    using assms by (intro round_half_even_mono_0) (simp add: less_imp_le)
  then have "0 \<le> of_int (round_half_even (x / ?u)) * ?u"
    by (simp add: less_imp_le)
  then show ?thesis
    by (auto simp: f64_round_def Let_def)
qed

lemma f64_round_0 [simp]: "f64_round 0 = FFin 0"
  by (simp add: f64_round_def)

text \<open>A number whose quotient by the unit in the last place is an integer is not rounded.\<close>

lemma f64_round_exact:
  assumes "\<bar>x\<bar> < 2 ^ 1024"
    and "x = of_int n * pow2 (max (ilog2 \<bar>x\<bar>) (- 1022) - 52)"
  shows "f64_round x = FFin x"
proof -
  define u where "u = pow2 (max (ilog2 \<bar>x\<bar>) (- 1022) - 52)"
  have u: "u \<noteq> 0" by (simp add: u_def)
  have x: "x = of_int n * u" using assms(2) by (simp add: u_def)
  with u have "x / u = of_int n" by simp
  then have y: "of_int (round_half_even (x / u)) * u = x"
    using x by simp
  from assms(1) have "\<not> 2 ^ 1024 \<le> x" "\<not> x \<le> - (2 ^ 1024)"
    by (auto simp: abs_if split: if_splits)
  then show ?thesis
    by (simp add: f64_round_def Let_def u_def [symmetric] y)
qed

lemma f64_round_of_int:
  assumes "\<bar>n\<bar> \<le> 2 ^ 53"
  shows "f64_round (of_int n) = FFin (of_int n)"
proof (cases "n = 0")
  case True
  then show ?thesis by simp
next
  case False
  define x where "x = (of_int n :: rat)"
  define e where "e = ilog2 \<bar>x\<bar>"
  have pos: "0 < \<bar>x\<bar>" using False by (simp add: x_def)
  have le: "\<bar>x\<bar> \<le> 2 ^ 53"
    using assms unfolding x_def by (metis of_int_abs of_int_le_iff of_int_numeral of_int_power)
  have big: "(2::rat) ^ 53 < 2 ^ 1024" by (rule power_strict_increasing) simp_all
  have lt: "\<bar>x\<bar> < 2 ^ 1024" using le big by simp
  have ge1: "1 \<le> \<bar>x\<bar>" using False by (simp add: x_def flip: of_int_abs)
  note b = ilog2_bounds [OF pos, folded e_def]
  have e0: "0 \<le> e"
  proof (rule ccontr)
    assume "\<not> 0 \<le> e"
    then have "pow2 (e + 1) \<le> pow2 0" by (intro pow2_mono) simp
    with b(2) ge1 show False by simp
  qed
  have e53: "e \<le> 53"
  proof (rule ccontr)
    assume "\<not> e \<le> 53"
    then have "pow2 (int 54) \<le> pow2 e" by (intro pow2_mono) simp
    with b(1) le show False by simp
  qed
  have m: "max (ilog2 \<bar>x\<bar>) (- 1022) = e" using e0 by (simp add: e_def)
  show ?thesis
  proof (cases "e \<le> 52")
    case True
    have "pow2 (52 - e) * pow2 (e - 52) = 1" by (simp add: pow2_add [symmetric])
    moreover have "pow2 (52 - e) = of_int (2 ^ nat (52 - e))" using True by (simp add: pow2_def)
    ultimately have x: "x = of_int (n * 2 ^ nat (52 - e)) * pow2 (e - 52)" by (simp add: x_def)
    show ?thesis
      unfolding x_def [symmetric] by (rule f64_round_exact [OF lt]) (subst m, rule x)
  next
    case False
    with e53 have e: "e = 53" by simp
    have "2 ^ 53 \<le> \<bar>x\<bar>"
      using b(1) pow2_of_nat [of 53] by (simp add: e)
    with le have "\<bar>x\<bar> = of_int (2 ^ 53)" by simp
    then have "\<bar>n\<bar> = 2 ^ 53" unfolding x_def by (metis of_int_abs of_int_eq_iff)
    then have "even \<bar>n\<bar>" by simp
    then have "even n" by simp
    then obtain k where k: "n = 2 * k" by blast
    have x: "x = of_int k * pow2 (e - 52)" by (simp add: e k x_def)
    show ?thesis
      unfolding x_def [symmetric] by (rule f64_round_exact [OF lt]) (subst m, rule x)
  qed
qed

section \<open>Arithmetic\<close>

fun f_neg :: "float64 \<Rightarrow> float64" where
  "f_neg (FNaN n) = FNaN n"
| "f_neg FNegInf = FPosInf"
| "f_neg (FFin x) = FFin (- x)"
| "f_neg FPosInf = FNegInf"

definition f_abs :: "float64 \<Rightarrow> float64" where
  "f_abs x = (if f_lt x (FFin 0) then f_neg x else x)"

fun f_add :: "float64 \<Rightarrow> float64 \<Rightarrow> float64" where
  "f_add (FNaN n) _ = FNaN n"
| "f_add _ (FNaN n) = FNaN n"
| "f_add (FFin x) (FFin y) = f64_round (x + y)"
| "f_add FPosInf y = (if y = FNegInf then math_NaN else FPosInf)"
| "f_add FNegInf y = (if y = FPosInf then math_NaN else FNegInf)"
| "f_add (FFin x) y = y"

definition f_sub :: "float64 \<Rightarrow> float64 \<Rightarrow> float64" where
  "f_sub x y = f_add x (f_neg y)"

definition f_sign :: "float64 \<Rightarrow> int" where
  "f_sign x = (if f_lt x (FFin 0) then -1 else if f_lt (FFin 0) x then 1 else 0)"

definition f_inf_of_sign :: "int \<Rightarrow> float64" where
  "f_inf_of_sign s = (if s < 0 then FNegInf else if 0 < s then FPosInf else math_NaN)"

fun f_mul :: "float64 \<Rightarrow> float64 \<Rightarrow> float64" where
  "f_mul (FNaN n) _ = FNaN n"
| "f_mul _ (FNaN n) = FNaN n"
| "f_mul (FFin x) (FFin y) = f64_round (x * y)"
| "f_mul x y = f_inf_of_sign (f_sign x * f_sign y)"

text \<open>Division: a finite number by zero is an infinity of the numerator's sign (a zero
  denominator counts as positive), zero by zero is NaN.\<close>

fun f_div :: "float64 \<Rightarrow> float64 \<Rightarrow> float64" where
  "f_div (FNaN n) _ = FNaN n"
| "f_div _ (FNaN n) = FNaN n"
| "f_div (FFin x) (FFin y) = (if y = 0 then f_inf_of_sign (f_sign (FFin x)) else f64_round (x / y))"
| "f_div (FFin x) y = FFin 0"
| "f_div x (FFin y) = f_inf_of_sign (f_sign x * (if y < 0 then -1 else 1))"
| "f_div x y = math_NaN"

text \<open>Conversions: \<^verbatim>\<open>float64(n)\<close> of an integer, and \<^verbatim>\<open>int64(x)\<close>, which truncates towards
  zero; outside the range Go leaves the result to the platform, and amd64 gives the least
  integer.\<close>

definition f_of_int :: "int \<Rightarrow> float64" where
  "f_of_int n = f64_round (of_int n)"

definition rat_trunc :: "rat \<Rightarrow> int" where
  "rat_trunc x = (if 0 \<le> x then \<lfloor>x\<rfloor> else \<lceil>x\<rceil>)"

fun f_to_int64 :: "float64 \<Rightarrow> int" where
  "f_to_int64 (FFin x) =
     (let n = rat_trunc x in if - (2 ^ 63) \<le> n \<and> n < 2 ^ 63 then n else - (2 ^ 63))"
| "f_to_int64 _ = - (2 ^ 63)"

text \<open>\<^verbatim>\<open>math.Round\<close> rounds half away from zero.\<close>

fun math_Round :: "float64 \<Rightarrow> float64" where
  "math_Round (FFin x) = FFin (of_int (if 0 \<le> x then \<lfloor>x + 1 / 2\<rfloor> else \<lceil>x - 1 / 2\<rceil>))"
| "math_Round x = x"

text \<open>Two's complement wrap-around of \<^verbatim>\<open>int64\<close> arithmetic.\<close>

definition wrap64 :: "int \<Rightarrow> int" where
  "wrap64 x = (x + 2 ^ 63) mod 2 ^ 64 - 2 ^ 63"

lemma wrap64_id: "- (2 ^ 63) \<le> x \<Longrightarrow> x < 2 ^ 63 \<Longrightarrow> wrap64 x = x"
  by (simp add: wrap64_def)

lemma wrap64_range: "- (2 ^ 63) \<le> wrap64 x \<and> wrap64 x < 2 ^ 63"
proof -
  have "0 \<le> (x + 2 ^ 63) mod 2 ^ 64" "(x + 2 ^ 63) mod 2 ^ 64 < 2 ^ 64"
    by (rule pos_mod_sign, simp) (rule pos_mod_bound, simp)
  then show ?thesis by (simp add: wrap64_def)
qed

lemma f_of_int_exact: "\<bar>n\<bar> \<le> 2 ^ 53 \<Longrightarrow> f_of_int n = FFin (of_int n)"
  unfolding f_of_int_def by (rule f64_round_of_int)

section \<open>Printing\<close>

function show_pos :: "int \<Rightarrow> string" where
  "show_pos n =
     (if n < 10 then [char_of (48 + n)] else show_pos (n div 10) @ [char_of (48 + n mod 10)])"
  by pat_completeness auto
termination
  by (relation "measure nat") auto

declare show_pos.simps [simp del]

definition show_int :: "int \<Rightarrow> string" where
  "show_int n = (if n < 0 then CHR ''-'' # show_pos (- n) else show_pos n)"

text \<open>The verbs \<^verbatim>\<open>%.0f\<close> and \<^verbatim>\<open>%.2f\<close> of \<^verbatim>\<open>fmt\<close>: the exact value, rounded half to even.\<close>

fun fmt_f0 :: "float64 \<Rightarrow> string" where
  "fmt_f0 (FNaN _) = ''NaN''"
| "fmt_f0 FPosInf = ''+Inf''"
| "fmt_f0 FNegInf = ''-Inf''"
| "fmt_f0 (FFin x) =
     (if x < 0 then ''-'' else []) @ show_pos (round_half_even \<bar>x\<bar>)"

fun fmt_f2 :: "float64 \<Rightarrow> string" where
  "fmt_f2 (FNaN _) = ''NaN''"
| "fmt_f2 FPosInf = ''+Inf''"
| "fmt_f2 FNegInf = ''-Inf''"
| "fmt_f2 (FFin x) =
     (let n = round_half_even (\<bar>x\<bar> * 100)
      in (if x < 0 then ''-'' else []) @ show_pos (n div 100) @ ''.''
         @ [char_of (48 + n div 10 mod 10), char_of (48 + n mod 10)])"

end
