(* ===== verification/Types.thy ===== *)
theory Types
  imports GoFloat
begin

text \<open>
  The data model shared by every component (\<^verbatim>\<open>types/types.go\<close>) and the metric key
  (\<^verbatim>\<open>utils/metricutils/metrics.go\<close>): statuses and their Nagios codes, labels, annotations,
  points, and the text form of a label set, which is the key of the threshold and metric
  tables. Label sets are Go maps, so association lists with distinct names.
\<close>

section \<open>Statuses\<close>

datatype status = StatusUnset | StatusOk | StatusWarning | StatusCritical | StatusUnknown

definition IsSet :: "status \<Rightarrow> bool" where
  "IsSet s = (s \<noteq> StatusUnset)"

fun status_String :: "status \<Rightarrow> string" where
  "status_String StatusUnset = ''unset''"
| "status_String StatusOk = ''ok''"
| "status_String StatusWarning = ''warning''"
| "status_String StatusCritical = ''critical''"
| "status_String StatusUnknown = ''unknown''"

definition char_to_lower :: "char \<Rightarrow> char" where
  "char_to_lower c =
     (let n = of_char c :: nat in if 65 \<le> n \<and> n \<le> 90 then char_of (n + 32) else c)"

text \<open>
  \<^verbatim>\<open>strings.ToLower\<close>: two characters outside of ASCII have a lower case in ASCII, the capital I with a dot and
  the Kelvin sign. The others have one outside of ASCII and are kept, which no comparison with a text in ASCII can tell.
\<close>

fun to_lower :: "string \<Rightarrow> string" where
  "to_lower [] = []"
| "to_lower (c # s) =
     (if c = CHR 0xC4 \<and> take 1 s = [CHR 0xB0] then CHR ''i'' # to_lower (drop 1 s)
      else if c = CHR 0xE2 \<and> take 2 s = [CHR 0x84, CHR 0xAA] then CHR ''k'' # to_lower (drop 2 s)
      else char_to_lower c # to_lower s)"

definition FromString :: "string \<Rightarrow> status" where
  "FromString s =
     (let l = to_lower s in
      if l = ''unset'' then StatusUnset
      else if l = ''ok'' then StatusOk
      else if l = ''warning'' then StatusWarning
      else if l = ''critical'' then StatusCritical
      else StatusUnknown)"

fun NagiosCode :: "status \<Rightarrow> int" where
  "NagiosCode StatusOk = 0"
| "NagiosCode StatusWarning = 1"
| "NagiosCode StatusCritical = 2"
| "NagiosCode StatusUnknown = 3"
| "NagiosCode StatusUnset = 3"

definition FromNagios :: "int \<Rightarrow> status" where
  "FromNagios n =
     (if n = 0 then StatusOk else if n = 1 then StatusWarning
      else if n = 2 then StatusCritical else StatusUnknown)"

section \<open>Labels, annotations and points\<close>

type_synonym labels = "(string, string) gomap"

abbreviation lbl :: "labels \<Rightarrow> string \<Rightarrow> string" where
  "lbl m k \<equiv> gm_get_or [] m k"

abbreviation (input) LabelName :: string where
  "LabelName \<equiv> ''__name__''"

abbreviation (input) LabelItem :: string where
  "LabelItem \<equiv> ''item''"

abbreviation (input) LabelInstanceUUID :: string where
  "LabelInstanceUUID \<equiv> ''instance_uuid''"

abbreviation (input) LabelInstance :: string where
  "LabelInstance \<equiv> ''instance''"

record StatusDescription =
  sd_CurrentStatus :: status
  sd_StatusDescription :: string

record MetricAnnotations =
  ContainerID :: string
  ServiceName :: string
  ServiceInstance :: string
  StatusOf :: string
  SNMPTarget :: string
  BleemeoAgentID :: string
  ann_Status :: StatusDescription

record Point =
  pt_Time :: gotime
  pt_Value :: float64

record MetricPoint =
  mp_Point :: Point
  mp_Labels :: labels
  mp_Annotations :: MetricAnnotations

record LabelsAndAnnotation =
  la_Labels :: labels
  la_Annotations :: MetricAnnotations

definition zero_status :: StatusDescription where
  "zero_status = \<lparr>sd_CurrentStatus = StatusUnset, sd_StatusDescription = []\<rparr>"

definition zero_annotations :: MetricAnnotations where
  "zero_annotations = \<lparr>ContainerID = [], ServiceName = [], ServiceInstance = [], StatusOf = [],
     SNMPTarget = [], BleemeoAgentID = [], ann_Status = zero_status\<rparr>"

definition annotations_Merge :: "MetricAnnotations \<Rightarrow> MetricAnnotations \<Rightarrow> MetricAnnotations" where
  "annotations_Merge a other =
     (let a = (if ContainerID other \<noteq> [] then a\<lparr>ContainerID := ContainerID other\<rparr> else a);
          a = (if ServiceName other \<noteq> [] then a\<lparr>ServiceName := ServiceName other\<rparr> else a);
          a = (if ServiceInstance other \<noteq> [] then a\<lparr>ServiceInstance := ServiceInstance other\<rparr> else a);
          a = (if StatusOf other \<noteq> [] then a\<lparr>StatusOf := StatusOf other\<rparr> else a);
          a = (if SNMPTarget other \<noteq> [] then a\<lparr>SNMPTarget := SNMPTarget other\<rparr> else a);
          a = (if BleemeoAgentID other \<noteq> [] then a\<lparr>BleemeoAgentID := BleemeoAgentID other\<rparr> else a);
          a = (if IsSet (sd_CurrentStatus (ann_Status other))
               then a\<lparr>ann_Status := ann_Status other\<rparr> else a)
      in a)"

definition annotations_Changed :: "MetricAnnotations \<Rightarrow> MetricAnnotations \<Rightarrow> bool" where
  "annotations_Changed a other =
     (ContainerID a \<noteq> ContainerID other \<or> ServiceName a \<noteq> ServiceName other \<or>
      ServiceInstance a \<noteq> ServiceInstance other \<or> StatusOf a \<noteq> StatusOf other \<or>
      SNMPTarget a \<noteq> SNMPTarget other \<or> BleemeoAgentID a \<noteq> BleemeoAgentID other)"

text \<open>\<^verbatim>\<open>maps.Equal\<close> on label sets.\<close>

definition labels_equal :: "labels \<Rightarrow> labels \<Rightarrow> bool" where
  "labels_equal a b =
     (length a = length b \<and> (\<forall>(k, v) \<in> set a. map_of b k = Some v))"

lemma labels_equal_iff:
  assumes "gm_wf a" "gm_wf b"
  shows "labels_equal a b \<longleftrightarrow> map_of a = map_of b"
proof
  assume eq: "labels_equal a b"
  have sub: "fst ` set a \<subseteq> fst ` set b"
    using eq by (auto simp: labels_equal_def dest!: map_of_SomeD intro: rev_image_eqI)
  have "card (fst ` set a) = card (fst ` set b)"
    using eq assms distinct_card [of "map fst a"] distinct_card [of "map fst b"]
    by (simp add: labels_equal_def)
  then have doms: "fst ` set a = fst ` set b" using sub by (intro card_subset_eq) auto
  show "map_of a = map_of b"
  proof
    fix k
    show "map_of a k = map_of b k"
    proof (cases "map_of a k")
      case None
      then have "map_of b k = None" using doms by (simp add: map_of_eq_None_iff)
      then show ?thesis using None by simp
    next
      case (Some v)
      then have "map_of b k = Some v"
        using eq by (fastforce simp: labels_equal_def dest: map_of_SomeD)
      then show ?thesis using Some by simp
    qed
  qed
next
  assume eq: "map_of a = map_of b"
  then have "fst ` set a = fst ` set b" by (metis dom_map_of_conv_image_fst)
  then have "length a = length b" using assms by (metis distinct_card length_map set_map)
  moreover have "map_of b k = Some v" if "(k, v) \<in> set a" for k v
    using that assms(1) eq by (metis map_of_is_SomeI)
  ultimately show "labels_equal a b" unfolding labels_equal_def by blast
qed

section \<open>The text form of a label set\<close>

definition dquote :: char where
  "dquote = char_of (34::nat)"

definition backslash :: char where
  "backslash = char_of (92::nat)"

definition newline :: char where
  "newline = char_of (10::nat)"

text \<open>The replacer \<^verbatim>\<open>quoter\<close> maps single bytes, so it is a byte-wise substitution.\<close>

definition quote_char :: "char \<Rightarrow> string" where
  "quote_char c =
     (if c = backslash then [backslash, backslash]
      else if c = dquote then [backslash, dquote]
      else if c = newline then [backslash, CHR ''n'']
      else [c])"

definition quoter :: "string \<Rightarrow> string" where
  "quoter s = concat (map quote_char s)"

text \<open>The loop of \<open>labelsToText\<close> over the sorted names; \<open>hadLabels\<close> is its flag.\<close>

fun labelsToText_loop :: "labels \<Rightarrow> bool \<Rightarrow> bool \<Rightarrow> string list \<Rightarrow> string \<times> bool" where
  "labelsToText_loop m nameBefore hadLabels [] = ([], hadLabels)"
| "labelsToText_loop m nameBefore hadLabels (name # names) =
     (let v = lbl m name in
      if v = [] then labelsToText_loop m nameBefore hadLabels names
      else let (b, h) = labelsToText_loop m nameBefore True names in
        ((if nameBefore \<and> \<not> hadLabels then ''{'' else []) @ (if hadLabels then '','' else [])
         @ name @ ''='' @ [dquote] @ quoter v @ [dquote] @ b, h))"

definition labelsToText :: "labels \<Rightarrow> bool \<Rightarrow> string" where
  "labelsToText m nameBefore =
     (if m = [] then []
      else let labelNames = sort (filter (\<lambda>k. \<not> (k = LabelName \<and> nameBefore)) (map fst m));
               (b, hadLabels) = labelsToText_loop m nameBefore False labelNames
           in (if nameBefore then lbl m LabelName else []) @ b
              @ (if nameBefore \<and> hadLabels then ''}'' else []))"

definition LabelsToText :: "labels \<Rightarrow> string" where
  "LabelsToText m = labelsToText m False"

definition LabelsToTextNicer :: "labels \<Rightarrow> string" where
  "LabelsToTextNicer m = labelsToText m True"

text \<open>
  \<open>consumeQuotedValueEscaped\<close> is given the text already copied to the builder and the text
  from the current index on; \<open>consumeQuotedValue\<close> scans for the first quote or backslash with
  the text already passed, in order, as its first argument. \<open>None\<close> is the result
  \<^verbatim>\<open>"", "", false\<close>.
\<close>

fun consumeQuotedValueEscaped :: "string \<Rightarrow> string \<Rightarrow> (string \<times> string) option" where
  "consumeQuotedValueEscaped b [] = None"
| "consumeQuotedValueEscaped b (c # cs) =
     (if c = dquote then Some (b, cs)
      else if c = backslash then
        (case cs of
           [] \<Rightarrow> None
         | d # ds \<Rightarrow>
             if d = dquote then consumeQuotedValueEscaped (b @ [dquote]) ds
             else if d = backslash then consumeQuotedValueEscaped (b @ [backslash]) ds
             else if d = CHR ''n'' then consumeQuotedValueEscaped (b @ [newline]) ds
             else None)
      else consumeQuotedValueEscaped (b @ [c]) cs)"

fun consumeQuotedValue_scan :: "string \<Rightarrow> string \<Rightarrow> (string \<times> string) option" where
  "consumeQuotedValue_scan seen [] = None"
| "consumeQuotedValue_scan seen (c # cs) =
     (if c = dquote then Some (seen, cs)
      else if c = backslash then consumeQuotedValueEscaped seen (c # cs)
      else consumeQuotedValue_scan (seen @ [c]) cs)"

definition consumeQuotedValue :: "string \<Rightarrow> (string \<times> string) option" where
  "consumeQuotedValue text = consumeQuotedValue_scan [] text"

lemma consumeQuotedValueEscaped_shorter:
  "consumeQuotedValueEscaped b s = Some (v, r) \<Longrightarrow> length r < length s"
  by (induction b s rule: consumeQuotedValueEscaped.induct)
    (auto split: if_splits list.splits)

lemma consumeQuotedValue_scan_shorter:
  "consumeQuotedValue_scan b s = Some (v, r) \<Longrightarrow> length r < length s"
  by (induction b s rule: consumeQuotedValue_scan.induct)
    (auto simp del: consumeQuotedValueEscaped.simps split: if_splits
      dest: consumeQuotedValueEscaped_shorter)

lemma consumeQuotedValue_shorter: "consumeQuotedValue s = Some (v, r) \<Longrightarrow> length r < length s"
  by (simp add: consumeQuotedValue_def consumeQuotedValue_scan_shorter)

text \<open>
  \<open>TextToLabels\<close>: the loop over the remaining text. \<open>strings.IndexByte(remaining, '=')\<close> splits
  at the first equals sign; \<open>eq <= 0\<close>, a missing quote, an unterminated value or a missing
  comma end with \<^verbatim>\<open>nil\<close> (\<open>None\<close>).
\<close>

function TextToLabels_loop :: "labels \<Rightarrow> string \<Rightarrow> labels option" where
  "TextToLabels_loop result remaining =
     (if remaining = [] then Some result
      else let key = takeWhile (\<lambda>c. c \<noteq> CHR ''='') remaining;
               rest = dropWhile (\<lambda>c. c \<noteq> CHR ''='') remaining
           in if rest = [] \<or> key = [] \<or> tl rest = [] \<or> hd (tl rest) \<noteq> dquote then None
              else (case consumeQuotedValue (tl (tl rest)) of
                      None \<Rightarrow> None
                    | Some (v, r) \<Rightarrow>
                        (case r of
                           [] \<Rightarrow> TextToLabels_loop (gm_set key v result) []
                         | c # r' \<Rightarrow>
                             if c \<noteq> CHR '','' then None
                             else TextToLabels_loop (gm_set key v result) r')))"
  by pat_completeness auto
termination
proof (relation "measure (\<lambda>(result, remaining). length remaining)", goal_cases)
  case 1
  then show ?case by simp
next
  case (2 result remaining key rest x v r)
  then show ?case by simp
next
  case (3 result remaining key rest x v r c r')
  have "length r < length (tl (tl rest))"
    using 3 by (auto dest: consumeQuotedValue_shorter)
  moreover have "length rest \<le> length remaining"
    using 3 by (simp add: length_dropWhile_le)
  ultimately show ?case using 3 by simp
qed

declare TextToLabels_loop.simps [simp del]

definition TextToLabels :: "string \<Rightarrow> labels option" where
  "TextToLabels text = (if text = [] then Some [] else TextToLabels_loop [] text)"

text \<open>A lookup in the result of \<open>TextToLabels\<close>: reading from the \<^verbatim>\<open>nil\<close> map gives \<^verbatim>\<open>""\<close>.\<close>

definition text_label :: "string \<Rightarrow> string \<Rightarrow> string" where
  "text_label text k = (case TextToLabels text of None \<Rightarrow> [] | Some m \<Rightarrow> lbl m k)"

section \<open>Metric keys\<close>

definition MetricOnlyHasItem :: "labels \<Rightarrow> string \<Rightarrow> bool" where
  "MetricOnlyHasItem m agentID =
     (\<not> 4 < length m \<and>
      (\<forall>(k, v) \<in> set m.
         (k = LabelName \<or> k = LabelItem \<or> k = LabelInstanceUUID \<or> k = LabelInstance) \<and>
         \<not> (k = LabelInstanceUUID \<and> v \<noteq> agentID)))"

definition MetricKey :: "labels \<Rightarrow> MetricAnnotations \<Rightarrow> string \<Rightarrow> string" where
  "MetricKey m annotations agentID =
     (let uuid = lbl m LabelInstanceUUID in
      if uuid = [] \<or> uuid = BleemeoAgentID annotations \<or>
         (BleemeoAgentID annotations = [] \<and> uuid = agentID)
      then let agentID' = (if BleemeoAgentID annotations \<noteq> [] then BleemeoAgentID annotations
                           else agentID)
           in if MetricOnlyHasItem m agentID'
              then let tmp = filter (\<lambda>(k, v). k \<noteq> LabelInstance) m;
                       tmp = (if agentID' \<noteq> [] then gm_set LabelInstanceUUID agentID' tmp else tmp)
                   in LabelsToText tmp
              else LabelsToText m
      else LabelsToText m)"

section \<open>Properties\<close>

lemma special_chars_distinct [simp]:
  "dquote \<noteq> backslash" "backslash \<noteq> dquote" "newline \<noteq> dquote" "newline \<noteq> backslash"
  "dquote \<noteq> newline" "backslash \<noteq> newline" "CHR ''n'' \<noteq> dquote" "CHR ''n'' \<noteq> backslash"
  by (simp_all add: dquote_def backslash_def newline_def) code_simp+

lemma quoter_simps [simp]: "quoter [] = []" "quoter (c # cs) = quote_char c @ quoter cs"
  by (simp_all add: quoter_def)

lemma consumeQuotedValueEscaped_quoter:
  "consumeQuotedValueEscaped b (quoter v @ dquote # r) = Some (b @ v, r)"
  by (induction v arbitrary: b) (auto simp: quote_char_def)

lemma consumeQuotedValue_scan_quoter:
  "consumeQuotedValue_scan b (quoter v @ dquote # r) = Some (b @ v, r)"
proof (induction v arbitrary: b)
  case Nil
  then show ?case by simp
next
  case (Cons c v)
  then show ?case
    using consumeQuotedValueEscaped_quoter [of b "c # v" r]
    by (auto simp: quote_char_def)
qed

lemma consumeQuotedValue_quoter: "consumeQuotedValue (quoter v @ dquote # r) = Some (v, r)"
  by (simp add: consumeQuotedValue_def consumeQuotedValue_scan_quoter)

lemma labelsToText_loop_had:
  "fst (labelsToText_loop m False True names) =
     (let t = fst (labelsToText_loop m False False names) in if t = [] then [] else CHR '','' # t)"
  by (induction names) (auto simp: Let_def split_beta)

abbreviation (input) plain_name :: "string \<Rightarrow> bool" where
  "plain_name k \<equiv> k \<noteq> [] \<and> CHR ''='' \<notin> set k"

lemma TextToLabels_loop_entry:
  assumes "plain_name k"
  shows "TextToLabels_loop res (k @ CHR ''='' # dquote # quoter v @ [dquote]) = Some (gm_set k v res)"
    and "TextToLabels_loop res (k @ CHR ''='' # dquote # quoter v @ dquote # CHR '','' # r) =
           TextToLabels_loop (gm_set k v res) r"
proof -
  have tw: "takeWhile (\<lambda>c. c \<noteq> CHR ''='') (k @ CHR ''='' # r) = k"
    and dw: "dropWhile (\<lambda>c. c \<noteq> CHR ''='') (k @ CHR ''='' # r) = CHR ''='' # r" for r
    using assms by (auto simp: takeWhile_append dropWhile_append)
  show "TextToLabels_loop res (k @ CHR ''='' # dquote # quoter v @ [dquote]) = Some (gm_set k v res)"
    using assms consumeQuotedValue_quoter [of v "[]"]
    by (subst TextToLabels_loop.simps) (simp add: tw dw TextToLabels_loop.simps [of _ "[]"])
  show "TextToLabels_loop res (k @ CHR ''='' # dquote # quoter v @ dquote # CHR '','' # r) =
           TextToLabels_loop (gm_set k v res) r"
    using assms consumeQuotedValue_quoter [of v "CHR '','' # r"]
    by (subst TextToLabels_loop.simps) (simp add: tw dw)
qed

lemma TextToLabels_loop_labelsToText:
  assumes "\<forall>k \<in> set names. plain_name k"
  shows "TextToLabels_loop res (fst (labelsToText_loop m False False names)) =
           Some (fold (\<lambda>k. gm_set k (lbl m k)) (filter (\<lambda>k. lbl m k \<noteq> []) names) res)"
  using assms
proof (induction names arbitrary: res)
  case Nil
  then show ?case by (simp add: TextToLabels_loop.simps)
next
  case (Cons k names)
  let ?t = "fst (labelsToText_loop m False False names)"
  note IH = Cons.IH [of "gm_set k (lbl m k) res"]
  show ?case
  proof (cases "lbl m k = []")
    case True
    with Cons show ?thesis by simp
  next
    case False
    with Cons.prems IH show ?thesis
      by (cases "?t = []")
        (auto simp: Let_def split_beta labelsToText_loop_had TextToLabels_loop_entry
          TextToLabels_loop.simps [of _ "[]"])
  qed
qed

lemma map_of_fold_gm_set:
  "map_of (fold (\<lambda>k. gm_set k (f k)) ks m) k =
     (if k \<in> set ks then Some (f k) else map_of m k)"
  by (induction ks arbitrary: m) auto

lemma TextToLabels_LabelsToText_ex:
  assumes "\<forall>k \<in> fst ` set m. plain_name k"
  shows "\<exists>m'. TextToLabels (LabelsToText m) = Some m' \<and>
           map_of m' = (\<lambda>k. case map_of m k of None \<Rightarrow> None
                           | Some v \<Rightarrow> if v = [] then None else Some v)"
proof -
  let ?names = "sort (map fst m)"
  let ?t = "fst (labelsToText_loop m False False ?names)"
  let ?m' = "fold (\<lambda>k. gm_set k (lbl m k)) (filter (\<lambda>k. lbl m k \<noteq> []) ?names) []"
  have t: "LabelsToText m = ?t"
    by (cases m) (auto simp: LabelsToText_def labelsToText_def Let_def split_beta)
  have "TextToLabels_loop [] ?t = Some ?m'"
    using assms by (intro TextToLabels_loop_labelsToText) simp
  moreover have "?t = [] \<Longrightarrow> TextToLabels_loop [] ?t = Some []"
    by (simp add: TextToLabels_loop.simps)
  ultimately have "TextToLabels (LabelsToText m) = Some ?m'"
    unfolding t TextToLabels_def by auto
  moreover have "map_of ?m' = (\<lambda>k. case map_of m k of None \<Rightarrow> None
                           | Some v \<Rightarrow> if v = [] then None else Some v)"
    by (rule ext) (auto simp: map_of_fold_gm_set gm_get_or_def map_of_eq_None_iff
        intro: rev_image_eqI split: option.splits dest: map_of_SomeD)
  ultimately show ?thesis by blast
qed

lemma LabelsToText_cong:
  assumes "gm_wf m" "gm_wf m'" "map_of m = map_of m'"
  shows "LabelsToText m = LabelsToText m'"
proof -
  have set_eq: "set (map fst m) = set (map fst m')"
    using assms(3) by (metis dom_map_of_conv_image_fst set_map)
  then have names: "sort (map fst m) = sort (map fst m')"
    using assms(1,2)
    by (intro sorted_distinct_set_unique) simp_all
  have loop: "labelsToText_loop m b h ns = labelsToText_loop m' b h ns" for b h ns
    by (induction ns arbitrary: h) (simp_all add: gm_get_or_def assms(3) Let_def split_beta)
  have nil: "m = [] \<longleftrightarrow> m' = []" using set_eq by auto
  show ?thesis
    using names by (simp add: LabelsToText_def labelsToText_def loop nil)
qed

text \<open>
  Label text identifies the label set. Two label sets without empty values, whose names are
  not empty and hold no equals sign, have the same text exactly when they are the same map,
  whatever the iteration order of the Go maps: the text can be used as a table key.
\<close>

theorem LabelsToText_eq_iff:
  assumes "gm_wf m" "gm_wf m'"
    and "\<forall>(k, v) \<in> set m. plain_name k \<and> v \<noteq> []"
    and "\<forall>(k, v) \<in> set m'. plain_name k \<and> v \<noteq> []"
  shows "LabelsToText m = LabelsToText m' \<longleftrightarrow> map_of m = map_of m'"
proof
  have *: "\<exists>n. TextToLabels (LabelsToText x) = Some n \<and> map_of n = map_of x"
    if "\<forall>(k, v) \<in> set x. plain_name k \<and> v \<noteq> []" for x
  proof -
    have "(\<lambda>k. case map_of x k of None \<Rightarrow> None | Some v \<Rightarrow> if v = [] then None else Some v) = map_of x"
      using that by (intro ext) (auto split: option.splits dest!: map_of_SomeD)
    then show ?thesis using TextToLabels_LabelsToText_ex [of x] that by fastforce
  qed
  assume "LabelsToText m = LabelsToText m'"
  then show "map_of m = map_of m'" using * [OF assms(3)] * [OF assms(4)] by auto
next
  assume "map_of m = map_of m'"
  with assms(1,2) show "LabelsToText m = LabelsToText m'" by (rule LabelsToText_cong)
qed

theorem LabelsToText_eq_iff_witness:
  "LabelsToText [(''a'', ''1''), (''b'', ''x y'')] = LabelsToText [(''b'', ''x y''), (''a'', ''1'')]
     \<longleftrightarrow> map_of [(''a'', ''1''), (''b'', ''x y'')] = map_of [(''b'', ''x y''), (''a'', ''1'')]"
  by (rule LabelsToText_eq_iff) simp_all

text \<open>
  C35 (label text round trip). Parsing the text of a label set gives back the set without its
  empty-valued labels, for names that are not empty and hold no equals sign; quotes,
  backslashes, newlines and commas in values survive.
\<close>

theorem TextToLabels_LabelsToText:
  assumes "\<forall>k \<in> fst ` set m. plain_name k"
  shows "\<exists>m'. TextToLabels (LabelsToText m) = Some m' \<and>
           map_of m' = (\<lambda>k. case map_of m k of None \<Rightarrow> None
                           | Some v \<Rightarrow> if v = [] then None else Some v)"
  using assms by (rule TextToLabels_LabelsToText_ex)

theorem TextToLabels_LabelsToText_witness:
  "\<exists>m'. TextToLabels (LabelsToText [(''__name__'', ''cpu''), (''item'', [dquote, backslash, CHR ''='', CHR '',''])]) = Some m'
     \<and> map_of m' ''item'' = Some [dquote, backslash, CHR ''='', CHR '','']"
  using TextToLabels_LabelsToText
    [of "[(''__name__'', ''cpu''), (''item'', [dquote, backslash, CHR ''='', CHR '',''])]"]
  by auto

lemma FromNagios_NagiosCode:
  "FromNagios (NagiosCode s) = (if s = StatusUnset then StatusUnknown else s)"
  by (cases s) (simp_all add: FromNagios_def)

lemma NagiosCode_FromNagios:
  "NagiosCode (FromNagios c) = (if 0 \<le> c \<and> c \<le> 2 then c else 3)"
  by (auto simp: FromNagios_def)

end
