(* ===== verification/ThresholdEngine.thy ===== *)
theory ThresholdEngine
  imports Types
begin

text \<open>
  The threshold engine (\<^verbatim>\<open>threshold/threshold.go\<close>). A \<open>Registry\<close> holds thresholds keyed by
  label text (one series) or by metric name (every series of a name), and one \<open>statusState\<close>
  per series: its hard status and since when the value is continuously over the warning and
  critical limits. \<open>ApplyThresholds\<close> is the engine's step on a batch of points. The lock
  around every method makes each of them one atomic step; the readings of \<^verbatim>\<open>nowFunc\<close> are an
  argument, one per evaluated point.
\<close>

section \<open>The state of one series\<close>

record statusState =
  CurrentStatus :: status
  CriticalSince :: gotime
  WarningSince :: gotime
  LastUpdate :: gotime
  LastValue :: float64

definition zero_state :: statusState where
  "zero_state = \<lparr>CurrentStatus = StatusUnset, CriticalSince = 0, WarningSince = 0,
     LastUpdate = 0, LastValue = FFin 0\<rparr>"

text \<open>\<open>setNewStatus\<close> returns the updated state, the critical and the warning duration.\<close>

definition setNewStatus :: "statusState \<Rightarrow> status \<Rightarrow> gotime \<Rightarrow> statusState \<times> duration \<times> duration" where
  "setNewStatus s newStatus now =
     (case newStatus of
        StatusCritical \<Rightarrow>
          let s = (if CriticalSince s = zero_time then s\<lparr>CriticalSince := now\<rparr> else s);
              s = (if WarningSince s = zero_time then s\<lparr>WarningSince := now\<rparr> else s)
          in (s, time_sub now (CriticalSince s), time_sub now (WarningSince s))
      | StatusWarning \<Rightarrow>
          let s = s\<lparr>CriticalSince := zero_time\<rparr>;
              s = (if WarningSince s = zero_time then s\<lparr>WarningSince := now\<rparr> else s)
          in (s, 0, time_sub now (WarningSince s))
      | _ \<Rightarrow> (s\<lparr>CriticalSince := zero_time, WarningSince := zero_time\<rparr>, 0, 0))"

definition Update :: "statusState \<Rightarrow> status \<Rightarrow> duration \<Rightarrow> duration \<Rightarrow> gotime \<Rightarrow> statusState" where
  "Update s newStatus warningDelay criticalDelay now =
     (let s = (if CurrentStatus s = StatusUnset then s\<lparr>CurrentStatus := newStatus\<rparr> else s);
          s = (if now < CriticalSince s then s\<lparr>CriticalSince := zero_time\<rparr> else s);
          s = (if now < WarningSince s then s\<lparr>WarningSince := zero_time\<rparr> else s);
          (s, criticalDuration, warningDuration) = setNewStatus s newStatus now;
          s = (if newStatus = StatusOk then s\<lparr>CurrentStatus := StatusOk\<rparr>
               else if (criticalDuration \<noteq> 0 \<or> newStatus = StatusCritical) \<and>
                       criticalDelay \<le> criticalDuration
               then s\<lparr>CurrentStatus := StatusCritical\<rparr>
               else if (warningDuration \<noteq> 0 \<or> newStatus = StatusWarning) \<and>
                       warningDelay \<le> warningDuration
               then s\<lparr>CurrentStatus := StatusWarning\<rparr>
               else if CurrentStatus s = StatusCritical \<and> newStatus = StatusWarning
               then s\<lparr>CurrentStatus := StatusWarning\<rparr>
               else s)
      in s\<lparr>LastUpdate := now\<rparr>)"

section \<open>Thresholds\<close>

record Threshold =
  LowCritical :: float64
  LowWarning :: float64
  WarningDelay :: duration
  HighWarning :: float64
  HighCritical :: float64
  CriticalDelay :: duration

text \<open>The struct literal with four \<^verbatim>\<open>math.NaN()\<close> limits, and the zero value of the type.\<close>

definition unset_threshold :: Threshold where
  "unset_threshold = \<lparr>LowCritical = math_NaN, LowWarning = math_NaN, WarningDelay = 0,
     HighWarning = math_NaN, HighCritical = math_NaN, CriticalDelay = 0\<rparr>"

definition zero_threshold :: Threshold where
  "zero_threshold = \<lparr>LowCritical = FFin 0, LowWarning = FFin 0, WarningDelay = 0,
     HighWarning = FFin 0, HighCritical = FFin 0, CriticalDelay = 0\<rparr>"

text \<open>\<open>threshold_eq\<close> is the operator \<^verbatim>\<open>==\<close> on the struct, so a NaN limit is not equal to itself.\<close>

definition threshold_eq :: "Threshold \<Rightarrow> Threshold \<Rightarrow> bool" where
  "threshold_eq t u =
     (f_eq (LowCritical t) (LowCritical u) \<and> f_eq (LowWarning t) (LowWarning u) \<and>
      WarningDelay t = WarningDelay u \<and> f_eq (HighWarning t) (HighWarning u) \<and>
      f_eq (HighCritical t) (HighCritical u) \<and> CriticalDelay t = CriticalDelay u)"

definition Equal :: "Threshold \<Rightarrow> Threshold \<Rightarrow> bool" where
  "Equal t u =
     (if threshold_eq t u then True
      else if \<not> f_eq (LowCritical t) (LowCritical u) \<and>
              (\<not> isNaN (LowCritical t) \<or> \<not> isNaN (LowCritical u)) then False
      else if \<not> f_eq (LowWarning t) (LowWarning u) \<and>
              (\<not> isNaN (LowWarning t) \<or> \<not> isNaN (LowWarning u)) then False
      else if \<not> f_eq (HighWarning t) (HighWarning u) \<and>
              (\<not> isNaN (HighWarning t) \<or> \<not> isNaN (HighWarning u)) then False
      else if \<not> f_eq (HighCritical t) (HighCritical u) \<and>
              (\<not> isNaN (HighCritical t) \<or> \<not> isNaN (HighCritical u)) then False
      else True)"

definition Merge :: "Threshold \<Rightarrow> Threshold \<Rightarrow> Threshold" where
  "Merge t other =
     (let t = (if isNaN (LowWarning t) \<or>
                  (\<not> isNaN (LowWarning other) \<and> f_lt (LowWarning t) (LowWarning other))
               then t\<lparr>LowWarning := LowWarning other, WarningDelay := WarningDelay other\<rparr> else t);
          t = (if isNaN (LowCritical t) \<or>
                  (\<not> isNaN (LowCritical other) \<and> f_lt (LowCritical t) (LowCritical other))
               then t\<lparr>LowCritical := LowCritical other, CriticalDelay := CriticalDelay other\<rparr> else t);
          t = (if isNaN (HighWarning t) \<or>
                  (\<not> isNaN (HighWarning other) \<and> f_lt (HighWarning other) (HighWarning t))
               then t\<lparr>HighWarning := HighWarning other, WarningDelay := WarningDelay other\<rparr> else t);
          t = (if isNaN (HighCritical t) \<or>
                  (\<not> isNaN (HighCritical other) \<and> f_lt (HighCritical other) (HighCritical t))
               then t\<lparr>HighCritical := HighCritical other, CriticalDelay := CriticalDelay other\<rparr> else t)
      in t)"

record ConfigThreshold =
  cfg_LowWarning :: "float64 option"
  cfg_LowCritical :: "float64 option"
  cfg_HighWarning :: "float64 option"
  cfg_HighCritical :: "float64 option"

definition FromConfig ::
  "ConfigThreshold \<Rightarrow> string \<Rightarrow> (string, duration) gomap \<Rightarrow> duration \<Rightarrow> Threshold" where
  "FromConfig config metricName softPeriods defaultSoftPeriod =
     (let t = unset_threshold;
          t = (case cfg_LowCritical config of None \<Rightarrow> t | Some v \<Rightarrow> t\<lparr>LowCritical := v\<rparr>);
          t = (case cfg_LowWarning config of None \<Rightarrow> t | Some v \<Rightarrow> t\<lparr>LowWarning := v\<rparr>);
          t = (case cfg_HighWarning config of None \<Rightarrow> t | Some v \<Rightarrow> t\<lparr>HighWarning := v\<rparr>);
          t = (case cfg_HighCritical config of None \<Rightarrow> t | Some v \<Rightarrow> t\<lparr>HighCritical := v\<rparr>);
          t = t\<lparr>WarningDelay := defaultSoftPeriod, CriticalDelay := defaultSoftPeriod\<rparr>
      in case map_of softPeriods metricName of
           None \<Rightarrow> t
         | Some softPeriod \<Rightarrow> t\<lparr>WarningDelay := softPeriod, CriticalDelay := softPeriod\<rparr>)"

definition IsZero :: "Threshold \<Rightarrow> bool" where
  "IsZero t =
     (if isNaN (LowCritical t) \<and> isNaN (LowWarning t) \<and> isNaN (HighWarning t) \<and>
         isNaN (HighCritical t) then True
      else f_eq (LowCritical t) (FFin 0) \<and> f_eq (LowWarning t) (FFin 0) \<and>
           f_eq (HighWarning t) (FFin 0) \<and> f_eq (HighCritical t) (FFin 0))"

definition threshold_CurrentStatus :: "Threshold \<Rightarrow> float64 \<Rightarrow> status \<times> bool" where
  "threshold_CurrentStatus t v =
     (if \<not> isNaN (LowCritical t) \<and> f_lt v (LowCritical t) then (StatusCritical, False)
      else if \<not> isNaN (LowWarning t) \<and> f_lt v (LowWarning t) then (StatusWarning, False)
      else if \<not> isNaN (HighCritical t) \<and> f_lt (HighCritical t) v then (StatusCritical, True)
      else if \<not> isNaN (HighWarning t) \<and> f_lt (HighWarning t) v then (StatusWarning, True)
      else (StatusOk, False))"

section \<open>Formatting of values\<close>

record Unit =
  UnitType :: int
  UnitText :: string

definition zero_unit :: Unit where
  "zero_unit = \<lparr>UnitType = 0, UnitText = []\<rparr>"

text \<open>\<^verbatim>\<open>Duration.Seconds\<close>: whole seconds plus the rest, both truncated towards zero.\<close>

definition duration_Seconds :: "duration \<Rightarrow> float64" where
  "duration_Seconds d =
     (let sec = rat_trunc (Fract d second); nsec = d - sec * second
      in f_add (f_of_int sec) (f_div (f_of_int nsec) (FFin 1000000000)))"

definition formatDurationDay :: "duration \<Rightarrow> string" where
  "formatDurationDay period =
     (let sign = (if period < 0 then ''-'' else []);
          period = (if period < 0 then wrap64 (- period) else period);
          value = math_Round (f_div (duration_Seconds period) (FFin 86400));
          result = sign @ fmt_f0 value @ '' day''
      in if f_lt (FFin 1) value then result @ ''s'' else result)"

text \<open>
  The loop of \<open>formatDuration\<close>: the arguments are the scale and the name of the previous unit
  (no name for the first round, \<open>i = 0\<close>), the result so far and the remaining units.
\<close>

definition f_tenth :: float64 where
  "f_tenth = f64_round (1 / 10)"

fun formatDuration_loop ::
  "string \<Rightarrow> float64 \<Rightarrow> int \<Rightarrow> string option \<Rightarrow> string \<Rightarrow> (int \<times> string) list \<Rightarrow> string" where
  "formatDuration_loop sign secs currentScale prevName result [] = result"
| "formatDuration_loop sign secs currentScale prevName result ((scale, name) # units) =
     (let previousScale = currentScale;
          currentScale = currentScale * scale;
          fscale = f_of_int currentScale;
          value = math_Round (f_div secs fscale);
          remainder = f_sub secs (f_mul value fscale);
          low = f_mul (f_mul (f_neg f_tenth) value) fscale
      in if f_lt value (FFin 1) \<or> (f_eq value (FFin 1) \<and> f_lt remainder low) then result
         else
           let adjust = f_lt remainder low;
               remainder = (if adjust then f_add remainder fscale else remainder);
               value = (if adjust then f_sub value (FFin 1) else value);
               result = sign @ fmt_f0 value @ '' '' @ name
                        @ (if f_lt (FFin 1) value then ''s'' else []);
               result =
                 (case prevName of
                    None \<Rightarrow> result
                  | Some pn \<Rightarrow>
                      if f_le (f_mul (f_mul f_tenth value) fscale) (f_abs remainder)
                      then let valueRemainder = math_Round (f_div remainder (f_of_int previousScale))
                           in result @ '' '' @ fmt_f0 valueRemainder @ '' '' @ pn
                              @ (if f_lt (FFin 1) valueRemainder then ''s'' else [])
                      else result)
           in formatDuration_loop sign secs currentScale (Some name) result units)"

definition formatDuration :: "duration \<Rightarrow> string" where
  "formatDuration period =
     (let sign = (if period < 0 then ''-'' else []);
          period = (if period < 0 then wrap64 (- period) else period)
      in formatDuration_loop sign (duration_Seconds period) 1 None ''0 second''
           [(1, ''second''), (60, ''minute''), (60, ''hour''), (24, ''day'')])"

text \<open>The scaling loop of \<open>FormatValue\<close>; the list holds the scales from the current one on.\<close>

fun scale_loop :: "float64 \<Rightarrow> string list \<Rightarrow> float64 \<times> string" where
  "scale_loop value [] = (value, [])"
| "scale_loop value [scale] = (value, scale)"
| "scale_loop value (scale # next # scales) =
     (if f_le (FFin 1024) (f_abs value)
      then scale_loop (f_div value (FFin 1024)) (next # scales)
      else (value, scale))"

definition FormatValue :: "float64 \<Rightarrow> Unit \<Rightarrow> string" where
  "FormatValue value unit =
     (if UnitType unit = 0 then fmt_f2 value
      else if UnitType unit \<in> {3, 11, 2, 10} then
        let (value, scale) = scale_loop value [[], ''K'', ''M'', ''G'', ''T'', ''P'', ''E''];
            pluralMark =
              (if UnitText unit \<noteq> [] \<and> last (UnitText unit) = CHR ''s'' then [] else ''s'')
        in fmt_f2 value @ '' '' @ scale @ UnitText unit @ pluralMark
      else if UnitType unit = 6 then formatDuration (wrap64 (f_to_int64 value * second))
      else if UnitType unit = 8 then
        formatDurationDay (wrap64 (wrap64 (f_to_int64 value * 24) * (3600 * second)))
      else fmt_f2 value @ '' '' @ UnitText unit)"

definition FormatValueAlt :: "float64 \<Rightarrow> Unit \<Rightarrow> float64 \<Rightarrow> Unit \<Rightarrow> string" where
  "FormatValueAlt value unit valueAlt unitAlt =
     FormatValue value unit @ '' ('' @ FormatValue valueAlt unitAlt @ '')''"

section \<open>The registry\<close>

record Registry =
  reg_agentID :: string
  reg_states :: "(string, statusState) gomap"
  reg_units :: "(string, Unit) gomap"
  reg_thresholds :: "(string, Threshold) gomap"
  reg_thresholdsAllItem :: "(string, Threshold) gomap"

record jsonState =
  js_statusState :: statusState
  js_LabelsText :: string

text \<open>
  \<open>New\<close> is given what \<^verbatim>\<open>state.Get(statusCacheKey, ...)\<close> returned, \<open>None\<close> for an error; a later
  entry with the same text overrides an earlier one.
\<close>

definition New :: "jsonState list option \<Rightarrow> Registry" where
  "New loaded =
     \<lparr>reg_agentID = [],
      reg_states = (case loaded of
                      None \<Rightarrow> []
                    | Some l \<Rightarrow> fold (\<lambda>v. gm_set (js_LabelsText v) (js_statusState v)) l []),
      reg_units = [], reg_thresholds = [], reg_thresholdsAllItem = []\<rparr>"

definition changed_keys :: "(string, Threshold) gomap \<Rightarrow> (string, Threshold) gomap \<Rightarrow> string list" where
  "changed_keys old new =
     map fst (filter (\<lambda>(k, t). case map_of old k of None \<Rightarrow> False | Some o' \<Rightarrow> \<not> Equal t o') new)"

definition reset_state :: "statusState \<Rightarrow> statusState" where
  "reset_state s = s\<lparr>CurrentStatus := StatusUnset, CriticalSince := zero_time,
     WarningSince := zero_time\<rparr>"

definition SetThresholds ::
  "Registry \<Rightarrow> string \<Rightarrow> (string, Threshold) gomap \<Rightarrow> (string, Threshold) gomap \<Rightarrow> Registry" where
  "SetThresholds r agentID thresholdWithItem thresholdAllItem =
     (let oldThresholds = filter (\<lambda>k. \<not> gm_mem k thresholdWithItem) (map fst (reg_thresholds r));
          changedName = changed_keys (reg_thresholdsAllItem r) thresholdAllItem;
          changedItem = changed_keys (reg_thresholds r) thresholdWithItem
      in r\<lparr>reg_agentID := agentID, reg_thresholdsAllItem := thresholdAllItem,
           reg_thresholds := thresholdWithItem,
           reg_states :=
             map (\<lambda>(labelsText, s).
                    (labelsText,
                     if labelsText \<in> set changedItem \<or>
                        text_label labelsText LabelName \<in> set changedName
                     then reset_state s else s))
               (filter (\<lambda>(labelsText, s). labelsText \<notin> set oldThresholds) (reg_states r))\<rparr>)"

definition SetUnits :: "Registry \<Rightarrow> (string, Unit) gomap \<Rightarrow> Registry" where
  "SetUnits r units = r\<lparr>reg_units := units\<rparr>"

definition GetThresholdMetricNames :: "Registry \<Rightarrow> string list" where
  "GetThresholdMetricNames r =
     map (\<lambda>(labelsText, t). text_label labelsText LabelName)
       (filter (\<lambda>(labelsText, t). \<not> IsZero t) (reg_thresholds r))"

record Entry =
  e_MetricName :: string
  e_LabelsText :: string
  e_Source :: string
  e_LowCritical :: float64
  e_LowWarning :: float64
  e_HighWarning :: float64
  e_HighCritical :: float64
  e_WarningDelay :: duration
  e_CriticalDelay :: duration

definition to_Entry :: "string \<Rightarrow> string \<Rightarrow> string \<Rightarrow> Threshold \<Rightarrow> Entry" where
  "to_Entry name text source t =
     \<lparr>e_MetricName = name, e_LabelsText = text, e_Source = source,
      e_LowCritical = LowCritical t, e_LowWarning = LowWarning t,
      e_HighWarning = HighWarning t, e_HighCritical = HighCritical t,
      e_WarningDelay = WarningDelay t, e_CriticalDelay = CriticalDelay t\<rparr>"

definition AllThresholds :: "Registry \<Rightarrow> Entry list" where
  "AllThresholds r =
     map (\<lambda>(metricName, t). to_Entry metricName [] ''config'' t)
       (filter (\<lambda>(k, t). \<not> IsZero t) (reg_thresholdsAllItem r))
     @ map (\<lambda>(labelsText, t).
              to_Entry (text_label labelsText LabelName) labelsText ''bleemeo'' t)
         (filter (\<lambda>(k, t). \<not> IsZero t) (reg_thresholds r))"

record StateEntry =
  se_LabelsText :: string
  se_MetricName :: string
  se_CurrentStatus :: status
  se_WarningSince :: gotime
  se_CriticalSince :: gotime
  se_LastUpdate :: gotime
  se_LastValue :: float64

definition AllStates :: "Registry \<Rightarrow> StateEntry list" where
  "AllStates r =
     map (\<lambda>(labelsText, s).
            \<lparr>se_LabelsText = labelsText, se_MetricName = text_label labelsText LabelName,
             se_CurrentStatus = CurrentStatus s, se_WarningSince = WarningSince s,
             se_CriticalSince = CriticalSince s, se_LastUpdate = LastUpdate s,
             se_LastValue = LastValue s\<rparr>) (reg_states r)"

definition getThreshold :: "Registry \<Rightarrow> string \<Rightarrow> string \<Rightarrow> Threshold" where
  "getThreshold r metricName metricKey =
     (case map_of (reg_thresholds r) metricKey of
        Some t \<Rightarrow> t
      | None \<Rightarrow>
          let t = gm_get_or zero_threshold (reg_thresholdsAllItem r) metricName
          in if IsZero t then unset_threshold else t)"

definition GetThreshold :: "Registry \<Rightarrow> labels \<Rightarrow> MetricAnnotations \<Rightarrow> Threshold" where
  "GetThreshold r lbls annotations =
     getThreshold r (lbl lbls LabelName) (MetricKey lbls annotations (reg_agentID r))"

section \<open>Expiry and persistence\<close>

abbreviation (input) statesTTL :: duration where
  "statesTTL \<equiv> 25 * 3600 * second"

definition cleanExpired :: "Registry \<Rightarrow> gotime \<Rightarrow> Registry" where
  "cleanExpired r now =
     r\<lparr>reg_states := filter (\<lambda>(k, v). \<not> statesTTL < time_sub now (LastUpdate v)) (reg_states r)\<rparr>"

definition getAsJSONList :: "Registry \<Rightarrow> jsonState list" where
  "getAsJSONList r =
     map (\<lambda>(k, v). \<lparr>js_statusState = v, js_LabelsText = k\<rparr>) (reg_states r)"

text \<open>
  The store behind the interface \<open>State\<close> is the argument \<open>st\<close>, the list held under
  \<^verbatim>\<open>statusCacheKey\<close>, and \<open>set_state\<close> the effect of \<^verbatim>\<open>state.Set\<close> on it.
\<close>

definition threshold_run ::
  "('st \<Rightarrow> jsonState list \<Rightarrow> 'st) \<Rightarrow> Registry \<times> 'st \<Rightarrow> bool \<Rightarrow> gotime \<Rightarrow> Registry \<times> 'st" where
  "threshold_run set_state rs save now =
     (let r = cleanExpired (fst rs) now
      in (r, if save then set_state (snd rs) (getAsJSONList r) else snd rs))"

text \<open>
  \<open>Run\<close> over its rounds. Each has what the guard of the loop sees of the context, what other goroutines do to
  the registry during the wait, whether the select took \<^verbatim>\<open>ctx.Done()\<close>, and the time (one reading per round). The
  context may end at any moment, also between the select and the next guard, and a select in which both are ready
  may take the timer.
\<close>

record run_round =
  rd_ctxErr :: bool
  rd_others :: "Registry \<Rightarrow> Registry"
  rd_done :: bool
  rd_now :: gotime

fun threshold_Run ::
  "('st \<Rightarrow> jsonState list \<Rightarrow> 'st) \<Rightarrow> gotime \<Rightarrow> Registry \<times> 'st \<Rightarrow> run_round list \<Rightarrow> Registry \<times> 'st" where
  "threshold_Run set_state lastSave rs [] = rs"
| "threshold_Run set_state lastSave rs (rd # rounds) =
     (if rd_ctxErr rd then rs
      else
        let save = (rd_done rd \<or> 60 * (60 * second) < time_sub (rd_now rd) lastSave);
            rs = threshold_run set_state (rd_others rd (fst rs), snd rs) save (rd_now rd);
            lastSave = (if save then rd_now rd else lastSave)
        in threshold_Run set_state lastSave rs rounds)"

section \<open>Applying thresholds to points\<close>

definition percToAlt :: "(string, string) gomap" where
  "percToAlt = [(''kubernetes_certificate_left_perc'', ''kubernetes_certificate_day_left'')]"

definition limit_of :: "Threshold \<Rightarrow> bool \<Rightarrow> status \<Rightarrow> float64" where
  "limit_of t highThreshold s =
     (if highThreshold \<and> s = StatusCritical then HighCritical t
      else if highThreshold \<and> s = StatusWarning then HighWarning t
      else if \<not> highThreshold \<and> s = StatusCritical then LowCritical t
      else if \<not> highThreshold \<and> s = StatusWarning then LowWarning t
      else math_NaN)"

definition addPointWithThreshold ::
  "Registry \<Rightarrow> gotime \<Rightarrow> MetricPoint list \<Rightarrow> MetricPoint \<Rightarrow> Threshold \<Rightarrow> string
     \<Rightarrow> Registry \<times> MetricPoint \<times> MetricPoint" where
  "addPointWithThreshold r now inputPoints point t metricKey =
     (let value = pt_Value (mp_Point point);
          (softStatus, highThreshold) = threshold_CurrentStatus t value;
          previousState = gm_get_or zero_state (reg_states r) metricKey;
          (metricKeyAlt, pointAlt) =
            (case map_of percToAlt (lbl (mp_Labels point) LabelName) of
               None \<Rightarrow> ([], None)
             | Some altName \<Rightarrow>
                 let labelsMapAlt = gm_set LabelName altName (mp_Labels point)
                 in (MetricKey labelsMapAlt (mp_Annotations point) (reg_agentID r),
                     find (\<lambda>pts. labels_equal (mp_Labels pts) labelsMapAlt) inputPoints));
          newState = Update previousState softStatus (WarningDelay t) (CriticalDelay t) now;
          newState = newState\<lparr>LastValue := value\<rparr>;
          r = r\<lparr>reg_states := gm_set metricKey newState (reg_states r)\<rparr>;
          unit = gm_get_or zero_unit (reg_units r) metricKey;
          unitAlt = gm_get_or zero_unit (reg_units r) metricKeyAlt;
          description =
            (case pointAlt of
               None \<Rightarrow> ''Current value: '' @ FormatValue value unit
             | Some alt \<Rightarrow>
                 if metricKeyAlt \<noteq> [] then
                   ''Current value: '' @ FormatValueAlt value unit (pt_Value (mp_Point alt)) unitAlt
                 else ''Current value: '' @ FormatValue value unit);
          description =
            (if CurrentStatus newState \<noteq> StatusOk then
               let limit = FormatValue (limit_of t highThreshold (CurrentStatus newState)) unit
               in if CurrentStatus newState = StatusWarning \<and> 0 < WarningDelay t then
                    description @ '' threshold ('' @ limit @ '') exceeded over last ''
                    @ formatDuration (WarningDelay t)
                  else if CurrentStatus newState = StatusCritical \<and> 0 < CriticalDelay t then
                    description @ '' threshold ('' @ limit @ '') exceeded over last ''
                    @ formatDuration (CriticalDelay t)
                  else description @ '' threshold ('' @ limit @ '') exceeded''
             else description);
          st = \<lparr>sd_CurrentStatus = CurrentStatus newState, sd_StatusDescription = description\<rparr>;
          annotationsCopy = (mp_Annotations point)\<lparr>ann_Status := st\<rparr>;
          newPoint = \<lparr>mp_Point = mp_Point point, mp_Labels = mp_Labels point,
                      mp_Annotations = annotationsCopy\<rparr>;
          labelsCopy = gm_set LabelName (lbl (mp_Labels point) LabelName @ ''_status'')
                         (mp_Labels point);
          newStatusPoint =
            \<lparr>mp_Point = \<lparr>pt_Time = pt_Time (mp_Point point),
                         pt_Value = f_of_int (NagiosCode (CurrentStatus newState))\<rparr>,
             mp_Labels = labelsCopy,
             mp_Annotations = annotationsCopy\<lparr>StatusOf := lbl (mp_Labels point) LabelName\<rparr>\<rparr>
      in (r, newPoint, newStatusPoint))"

text \<open>
  The loop of \<open>ApplyThresholds\<close>: \<open>clock i\<close> is the reading of \<^verbatim>\<open>nowFunc\<close> for the point of
  index \<open>i\<close>, and \<open>points\<close> the whole batch.
\<close>

fun ApplyThresholds_loop ::
  "(nat \<Rightarrow> gotime) \<Rightarrow> MetricPoint list \<Rightarrow> nat \<Rightarrow> Registry \<Rightarrow> MetricPoint list
     \<Rightarrow> Registry \<times> MetricPoint list \<times> MetricPoint list" where
  "ApplyThresholds_loop clock points i r [] = (r, [], [])"
| "ApplyThresholds_loop clock points i r (point # rest) =
     (let metricKey = MetricKey (mp_Labels point) (mp_Annotations point) (reg_agentID r);
          t = getThreshold r (lbl (mp_Labels point) LabelName) metricKey
      in if \<not> IsSet (sd_CurrentStatus (ann_Status (mp_Annotations point))) \<and>
            \<not> IsZero t \<and> \<not> isNaN (pt_Value (mp_Point point))
         then let (r, newPoint, newStatusPoint) =
                    addPointWithThreshold r (clock i) points point t metricKey;
                  (r, newPoints, statusPoints) = ApplyThresholds_loop clock points (Suc i) r rest
              in (r, newPoint # newPoints, newStatusPoint # statusPoints)
         else let (r, newPoints, statusPoints) = ApplyThresholds_loop clock points (Suc i) r rest
              in (r, point # newPoints, statusPoints))"

definition ApplyThresholds ::
  "Registry \<Rightarrow> (nat \<Rightarrow> gotime) \<Rightarrow> MetricPoint list
     \<Rightarrow> Registry \<times> MetricPoint list \<times> MetricPoint list" where
  "ApplyThresholds r clock points = ApplyThresholds_loop clock points 0 r points"

end
