(* ===== verification/ThresholdProofs.thy ===== *)
theory ThresholdProofs
  imports ThresholdEngine
begin

text \<open>
  Correctness of the threshold engine: soft periods (the hard status of a series against the
  history of its soft statuses), the limits of a threshold, what a batch of points does to the
  states and to the points, installing new thresholds, and the invariant of the registry.
\<close>

section \<open>One update\<close>

abbreviation (input) is_alert :: "status \<Rightarrow> bool" where
  "is_alert st \<equiv> st = StatusWarning \<or> st = StatusCritical"

lemma Update_fields:
  fixes s st t
  defines "c \<equiv> if t < CriticalSince s then 0 else CriticalSince s"
    and "w \<equiv> if t < WarningSince s then 0 else WarningSince s"
  shows "CriticalSince (Update s st wd cd t) = (if st = StatusCritical then if c = 0 then t else c else 0)"
    and "WarningSince (Update s st wd cd t) = (if is_alert st then if w = 0 then t else w else 0)"
    and "LastUpdate (Update s st wd cd t) = t"
    and "CurrentStatus (Update s st wd cd t) \<in> {CurrentStatus s, st, StatusOk, StatusWarning, StatusCritical}"
    and "st \<noteq> StatusUnset \<Longrightarrow> CurrentStatus (Update s st wd cd t) \<noteq> StatusUnset"
  unfolding c_def w_def
  by (cases "CurrentStatus s = StatusUnset"; cases "t < CriticalSince s"; cases "t < WarningSince s"; cases st;
    simp add: Update_def setNewStatus_def Let_def)+

section \<open>Soft periods\<close>

text \<open>
  One series evaluated at several times: \<open>obs\<close> lists the soft statuses with their times. Times
  are positive (after the zero time) and do not go back.
\<close>

definition Update_all ::
  "duration \<Rightarrow> duration \<Rightarrow> statusState \<Rightarrow> (status \<times> gotime) list \<Rightarrow> statusState" where
  "Update_all wd cd s obs = foldl (\<lambda>s (st, t). Update s st wd cd t) s obs"

definition observations :: "(status \<times> gotime) list \<Rightarrow> bool" where
  "observations obs =
     (sorted (map snd obs) \<and>
      (\<forall>(st, t) \<in> set obs. 0 < t \<and> st \<in> {StatusOk, StatusWarning, StatusCritical}))"

text \<open>The start of the trailing run of observations that satisfy \<open>P\<close>, 0 without such a run.\<close>

definition run_start :: "(status \<Rightarrow> bool) \<Rightarrow> (status \<times> gotime) list \<Rightarrow> gotime" where
  "run_start P obs = fold (\<lambda>(st, t) since. if P st then if since = 0 then t else since else 0) obs 0"

lemma run_start_Nil [simp]: "run_start P [] = 0"
  by (simp add: run_start_def)

lemma run_start_snoc [simp]:
  "run_start P (obs @ [(st, t)]) =
     (if P st then if run_start P obs = 0 then t else run_start P obs else 0)"
  by (simp add: run_start_def)

lemma observations_snoc:
  "observations (obs @ [(st, t)]) \<longleftrightarrow>
     observations obs \<and> (\<forall>x \<in> set obs. snd x \<le> t) \<and> 0 < t \<and>
     st \<in> {StatusOk, StatusWarning, StatusCritical}"
  by (auto simp: observations_def sorted_append)

lemma observations_append_left: "observations (xs @ ys) \<Longrightarrow> observations xs"
  by (auto simp: observations_def sorted_append)

lemma run_start_bounds:
  "observations obs \<Longrightarrow> (\<forall>x \<in> set obs. snd x \<le> t) \<Longrightarrow> 0 \<le> t \<Longrightarrow> 0 \<le> run_start P obs \<and> run_start P obs \<le> t"
proof (induction obs arbitrary: t rule: rev_induct)
  case (snoc x xs)
  then show ?case by (cases x) (auto simp: observations_snoc)
qed simp

text \<open>The trailing run is a suffix of the history, and every other suffix in it starts later.\<close>

lemma run_start_le_hd:
  "observations (pre @ run) \<Longrightarrow> run \<noteq> [] \<Longrightarrow> \<forall>x \<in> set run. P (fst x) \<Longrightarrow>
     run_start P (pre @ run) \<noteq> 0 \<and> run_start P (pre @ run) \<le> snd (hd run)"
proof (induction run rule: rev_induct)
  case (snoc x run)
  obtain st u where x: "x = (st, u)" by (cases x)
  have obs: "observations ((pre @ run) @ [(st, u)])" using snoc.prems(1) x by simp
  show ?case
  proof (cases "run = []")
    case True
    then show ?thesis
      using obs snoc.prems x run_start_bounds [of pre u P]
      by (auto simp: observations_snoc simp del: append_assoc)
  next
    case False
    have "observations (pre @ run)" using obs observations_append_left by blast
    then have "run_start P (pre @ run) \<noteq> 0 \<and> run_start P (pre @ run) \<le> snd (hd run)"
      using snoc.IH False snoc.prems(3) by auto
    moreover have "run_start P (pre @ run @ [x]) = run_start P (pre @ run)"
      using snoc.prems(3) x calculation run_start_snoc [of P "pre @ run" st u] by simp
    ultimately show ?thesis using False by simp
  qed
qed simp

lemma run_start_suffix:
  "run_start P obs \<noteq> 0 \<Longrightarrow>
     \<exists>pre run. obs = pre @ run \<and> run \<noteq> [] \<and> (\<forall>x \<in> set run. P (fst x)) \<and>
       snd (hd run) = run_start P obs"
proof (induction obs rule: rev_induct)
  case (snoc x xs)
  obtain st u where x: "x = (st, u)" by (cases x)
  have P: "P st" using snoc.prems x by (auto split: if_splits)
  show ?case
  proof (cases "run_start P xs = 0")
    case True
    then show ?thesis using P x by (intro exI [of _ xs] exI [of _ "[x]"]) simp
  next
    case False
    then obtain pre run where "xs = pre @ run" "run \<noteq> []" "\<forall>x \<in> set run. P (fst x)"
      "snd (hd run) = run_start P xs" using snoc.IH by blast
    then have "xs @ [x] = pre @ (run @ [x]) \<and> run @ [x] \<noteq> [] \<and> (\<forall>y \<in> set (run @ [x]). P (fst y)) \<and>
        snd (hd (run @ [x])) = run_start P (xs @ [x])"
      using False P x by (auto simp del: append_assoc)
    then show ?thesis by blast
  qed
qed simp

definition sustained :: "(status \<Rightarrow> bool) \<Rightarrow> duration \<Rightarrow> (status \<times> gotime) list \<Rightarrow> bool" where
  "sustained P d obs \<longleftrightarrow>
     (\<exists>pre run. obs = pre @ run \<and> run \<noteq> [] \<and> (\<forall>x \<in> set run. P (fst x)) \<and>
        d \<le> time_sub (snd (last run)) (snd (hd run)))"

lemma sustained_iff:
  assumes "observations (obs @ [(st, t)])"
  shows "sustained P d (obs @ [(st, t)]) \<longleftrightarrow>
           P st \<and> d \<le> time_sub t (run_start P (obs @ [(st, t)]))"
    (is "?L \<longleftrightarrow> ?R")
proof
  assume ?L
  then obtain pre run where r: "obs @ [(st, t)] = pre @ run" "run \<noteq> []" "\<forall>x \<in> set run. P (fst x)"
    "d \<le> time_sub (snd (last run)) (snd (hd run))" by (auto simp: sustained_def)
  have l: "last run = (st, t)" using r(1,2) by (metis last_appendR last_snoc)
  then have "P st" using r(2,3) last_in_set by fastforce
  moreover have "run_start P (obs @ [(st, t)]) \<le> snd (hd run)"
    using run_start_le_hd [of pre run P] assms r by metis
  ultimately show ?R using r(4) l time_sub_antimono [of _ "snd (hd run)" t] by fastforce
next
  assume R: ?R
  then have "run_start P (obs @ [(st, t)]) \<noteq> 0" using assms by (auto simp: observations_snoc)
  from run_start_suffix [OF this] obtain pre run where r: "obs @ [(st, t)] = pre @ run" "run \<noteq> []"
    "\<forall>x \<in> set run. P (fst x)" "snd (hd run) = run_start P (obs @ [(st, t)])" by blast
  moreover have "last run = (st, t)" using r(1,2) by (metis last_appendR last_snoc)
  ultimately show ?L using R unfolding sustained_def by (intro exI conjI) auto
qed

lemma Update_all_snoc [simp]:
  "Update_all wd cd s (obs @ [(st, t)]) = Update (Update_all wd cd s obs) st wd cd t"
  by (simp add: Update_all_def)

lemma Update_all_since:
  assumes "observations obs"
  shows "CriticalSince (Update_all wd cd zero_state obs) = run_start (\<lambda>st. st = StatusCritical) obs \<and>
         WarningSince (Update_all wd cd zero_state obs) = run_start is_alert obs"
  using assms
proof (induction obs rule: rev_induct)
  case Nil
  then show ?case by (simp add: Update_all_def zero_state_def)
next
  case (snoc x obs)
  obtain st t where x: "x = (st, t)" by (cases x)
  have o: "observations obs" "\<forall>x \<in> set obs. snd x \<le> t" "0 < t"
    "st \<in> {StatusOk, StatusWarning, StatusCritical}"
    using snoc.prems x by (auto simp: observations_snoc)
  then have "\<not> t < run_start P obs" for P
    using run_start_bounds [OF o(1,2), of P] by simp
  then show ?case using snoc.IH o x by (simp add: Update_fields)
qed

lemma Update_status:
  assumes "st \<in> {StatusOk, StatusWarning, StatusCritical}" "CriticalSince s \<le> t" "WarningSince s \<le> t"
  shows "CurrentStatus (Update s st wd cd t) =
     (let s' = Update s st wd cd t in
      if st = StatusOk then StatusOk
      else if st = StatusCritical \<and> cd \<le> time_sub t (CriticalSince s') then StatusCritical
      else if (t \<noteq> WarningSince s' \<or> st = StatusWarning) \<and> wd \<le> time_sub t (WarningSince s')
      then StatusWarning
      else if CurrentStatus s = StatusUnset then st
      else if CurrentStatus s = StatusCritical \<and> st = StatusWarning then StatusWarning
      else CurrentStatus s)"
  unfolding Let_def Update_fields(1,2)
  using assms
  by (cases "CurrentStatus s = StatusUnset"; cases "CriticalSince s = 0"; cases "WarningSince s = 0";
      cases st; simp add: Update_def setNewStatus_def)

lemma Update_all_before:
  assumes "observations (obs @ [(st, t)])"
  shows "st \<in> {StatusOk, StatusWarning, StatusCritical}"
    and "CriticalSince (Update_all wd cd zero_state obs) \<le> t"
    and "WarningSince (Update_all wd cd zero_state obs) \<le> t"
proof -
  have o: "observations obs" "\<forall>x \<in> set obs. snd x \<le> t" "0 < t"
    "st \<in> {StatusOk, StatusWarning, StatusCritical}"
    using assms by (auto simp: observations_snoc)
  then show "st \<in> {StatusOk, StatusWarning, StatusCritical}"
    and "CriticalSince (Update_all wd cd zero_state obs) \<le> t"
    and "WarningSince (Update_all wd cd zero_state obs) \<le> t"
    using Update_all_since [OF o(1)] run_start_bounds [OF o(1,2)] by auto
qed

lemma Update_all_unset_iff:
  assumes "observations obs"
  shows "CurrentStatus (Update_all wd cd zero_state obs) = StatusUnset \<longleftrightarrow> obs = []"
proof (cases obs rule: rev_cases)
  case Nil
  then show ?thesis by (simp add: Update_all_def zero_state_def)
next
  case (snoc xs x)
  obtain st t where x: "x = (st, t)" by (cases x)
  note before = Update_all_before(1) [of xs st t] Update_all_before(2,3) [of xs st t wd cd]
  show ?thesis
    using assms before(1) unfolding snoc x Update_all_snoc
    by (subst Update_status [OF before]) (auto simp: Let_def)
qed

lemma Update_all_status:
  assumes "observations (obs @ [(st, t)])"
  shows "CurrentStatus (Update_all wd cd zero_state (obs @ [(st, t)])) =
     (let prev = CurrentStatus (Update_all wd cd zero_state obs); obs' = obs @ [(st, t)] in
      if st = StatusOk then StatusOk
      else if sustained (\<lambda>x. x = StatusCritical) cd obs' then StatusCritical
      else if (t \<noteq> run_start is_alert obs' \<or> st = StatusWarning) \<and> sustained is_alert wd obs'
      then StatusWarning
      else if obs = [] then st
      else if prev = StatusCritical \<and> st = StatusWarning then StatusWarning
      else prev)"
proof -
  let ?s = "Update_all wd cd zero_state obs"
  let ?s' = "Update ?s st wd cd t"
  note before = Update_all_before(1) [OF assms] Update_all_before(2,3) [OF assms, of wd cd]
  have crit: "sustained (\<lambda>x. x = StatusCritical) cd (obs @ [(st, t)]) \<longleftrightarrow>
      st = StatusCritical \<and> cd \<le> time_sub t (CriticalSince ?s')"
    and alert: "sustained is_alert wd (obs @ [(st, t)]) \<longleftrightarrow>
      is_alert st \<and> wd \<le> time_sub t (WarningSince ?s')"
    and start: "run_start is_alert (obs @ [(st, t)]) = WarningSince ?s'"
    using sustained_iff [OF assms] Update_all_since [OF assms, of wd cd] by simp_all
  have unset: "CurrentStatus ?s = StatusUnset \<longleftrightarrow> obs = []"
    using Update_all_unset_iff observations_append_left [OF assms] .
  show ?thesis
    unfolding Update_all_snoc Update_status [OF before] crit alert start Let_def unset
    using before(1) by (cases st) simp_all
qed

text \<open>
  C1 (escalation needs, and follows, a sustained critical value). From a status other than
  critical, evaluating a series makes it critical exactly when the last observations up to now
  are all critical and span at least the critical delay.
\<close>

theorem Update_critical_iff:
  assumes "observations (obs @ [(st, t)])" "obs \<noteq> []"
    and "CurrentStatus (Update_all wd cd zero_state obs) \<noteq> StatusCritical"
  shows "CurrentStatus (Update_all wd cd zero_state (obs @ [(st, t)])) = StatusCritical \<longleftrightarrow>
           (\<exists>pre run. obs @ [(st, t)] = pre @ run \<and> run \<noteq> [] \<and>
              (\<forall>x \<in> set run. fst x = StatusCritical) \<and>
              cd \<le> time_sub (snd (last run)) (snd (hd run)))"
proof -
  have "CurrentStatus (Update_all wd cd zero_state (obs @ [(st, t)])) = StatusCritical \<longleftrightarrow>
      sustained (\<lambda>x. x = StatusCritical) cd (obs @ [(st, t)])"
    using assms(2,3) sustained_iff [OF assms(1), of "\<lambda>x. x = StatusCritical" cd]
    unfolding Update_all_status [OF assms(1)] Let_def by (cases st) simp_all
  then show ?thesis unfolding sustained_def .
qed

theorem Update_critical_iff_witness:
  "CurrentStatus (Update_all 10 10 zero_state ([(StatusOk, 1), (StatusCritical, 2)] @ [(StatusCritical, 12)]))
     = StatusCritical"
proof (rule Update_critical_iff [THEN iffD2])
  show "\<exists>pre run. [(StatusOk, 1), (StatusCritical, 2)] @ [(StatusCritical, 12)] = pre @ run \<and>
      run \<noteq> [] \<and> (\<forall>x \<in> set run. fst x = StatusCritical) \<and>
      10 \<le> time_sub (snd (last run)) (snd (hd run))"
    by (rule exI [of _ "[(StatusOk, 1)]"], rule exI [of _ "[(StatusCritical, 2), (StatusCritical, 12)]"])
      (simp add: time_sub_def)
qed (simp_all add: observations_def Update_all_def Update_def setNewStatus_def zero_state_def Let_def time_sub_def)

text \<open>
  C17 (leaving the ok status). From ok, and with a positive warning delay, a series leaves ok
  exactly when it has been critical for the critical delay or over a limit for the warning
  delay, without interruption.
\<close>

theorem Update_leaves_ok_iff:
  assumes "observations (obs @ [(st, t)])" "obs \<noteq> []" "0 < wd"
    and "CurrentStatus (Update_all wd cd zero_state obs) = StatusOk"
  shows "CurrentStatus (Update_all wd cd zero_state (obs @ [(st, t)])) \<noteq> StatusOk \<longleftrightarrow>
           sustained (\<lambda>x. x = StatusCritical) cd (obs @ [(st, t)]) \<or>
           sustained is_alert wd (obs @ [(st, t)])"
proof -
  have "t \<noteq> run_start is_alert (obs @ [(st, t)])" if "sustained is_alert wd (obs @ [(st, t)])"
    using that assms(3) unfolding sustained_iff [OF assms(1)] by (metis time_sub_self not_le)
  moreover have "sustained (\<lambda>x. x = StatusCritical) cd (obs @ [(st, t)]) \<Longrightarrow> st = StatusCritical"
    "sustained is_alert wd (obs @ [(st, t)]) \<Longrightarrow> is_alert st"
    by (simp_all add: sustained_iff [OF assms(1)])
  ultimately show ?thesis
    using assms(2,4) unfolding Update_all_status [OF assms(1)] Let_def
    by (auto simp del: run_start_snoc)
qed

theorem Update_leaves_ok_iff_witness:
  "CurrentStatus (Update_all 10 20 zero_state ([(StatusOk, 1), (StatusWarning, 2)] @ [(StatusCritical, 12)]))
     \<noteq> StatusOk"
proof (rule Update_leaves_ok_iff [THEN iffD2])
  have "sustained is_alert 10 ([(StatusOk, 1), (StatusWarning, 2)] @ [(StatusCritical, 12)])"
    unfolding sustained_def
    by (rule exI [of _ "[(StatusOk, 1)]"], rule exI [of _ "[(StatusWarning, 2), (StatusCritical, 12)]"])
      (simp add: time_sub_def)
  then show "sustained (\<lambda>x. x = StatusCritical) 20 ([(StatusOk, 1), (StatusWarning, 2)] @ [(StatusCritical, 12)])
    \<or> sustained is_alert 10 ([(StatusOk, 1), (StatusWarning, 2)] @ [(StatusCritical, 12)])" ..
qed (simp_all add: observations_def Update_all_def Update_def setNewStatus_def zero_state_def Let_def time_sub_def)

section \<open>Limits\<close>

fun severity :: "status \<Rightarrow> nat" where
  "severity StatusWarning = 1"
| "severity StatusCritical = 2"
| "severity _ = 0"

lemma f_lt_stricter_low:
  "f_lt v (if isNaN a \<or> (\<not> isNaN b \<and> f_lt a b) then b else a) \<longleftrightarrow> f_lt v a \<or> f_lt v b"
  by (cases a; cases b; cases v) auto

lemma f_lt_stricter_high:
  "f_lt (if isNaN a \<or> (\<not> isNaN b \<and> f_lt b a) then b else a) v \<longleftrightarrow> f_lt a v \<or> f_lt b v"
  by (cases a; cases b; cases v) auto

lemma limit_if:
  "LowWarning (if c then t\<lparr>LowWarning := a, WarningDelay := b\<rparr> else t) = (if c then a else LowWarning t)"
  "LowCritical (if c then t\<lparr>LowWarning := a, WarningDelay := b\<rparr> else t) = LowCritical t"
  "HighWarning (if c then t\<lparr>LowWarning := a, WarningDelay := b\<rparr> else t) = HighWarning t"
  "HighCritical (if c then t\<lparr>LowWarning := a, WarningDelay := b\<rparr> else t) = HighCritical t"
  "WarningDelay (if c then t\<lparr>LowWarning := a, WarningDelay := b\<rparr> else t) = (if c then b else WarningDelay t)"
  "CriticalDelay (if c then t\<lparr>LowWarning := a, WarningDelay := b\<rparr> else t) = CriticalDelay t"
  "LowWarning (if c then t\<lparr>LowCritical := a, CriticalDelay := b\<rparr> else t) = LowWarning t"
  "LowCritical (if c then t\<lparr>LowCritical := a, CriticalDelay := b\<rparr> else t) = (if c then a else LowCritical t)"
  "HighWarning (if c then t\<lparr>LowCritical := a, CriticalDelay := b\<rparr> else t) = HighWarning t"
  "HighCritical (if c then t\<lparr>LowCritical := a, CriticalDelay := b\<rparr> else t) = HighCritical t"
  "WarningDelay (if c then t\<lparr>LowCritical := a, CriticalDelay := b\<rparr> else t) = WarningDelay t"
  "CriticalDelay (if c then t\<lparr>LowCritical := a, CriticalDelay := b\<rparr> else t) = (if c then b else CriticalDelay t)"
  "LowWarning (if c then t\<lparr>HighWarning := a, WarningDelay := b\<rparr> else t) = LowWarning t"
  "LowCritical (if c then t\<lparr>HighWarning := a, WarningDelay := b\<rparr> else t) = LowCritical t"
  "HighWarning (if c then t\<lparr>HighWarning := a, WarningDelay := b\<rparr> else t) = (if c then a else HighWarning t)"
  "HighCritical (if c then t\<lparr>HighWarning := a, WarningDelay := b\<rparr> else t) = HighCritical t"
  "WarningDelay (if c then t\<lparr>HighWarning := a, WarningDelay := b\<rparr> else t) = (if c then b else WarningDelay t)"
  "CriticalDelay (if c then t\<lparr>HighWarning := a, WarningDelay := b\<rparr> else t) = CriticalDelay t"
  "LowWarning (if c then t\<lparr>HighCritical := a, CriticalDelay := b\<rparr> else t) = LowWarning t"
  "LowCritical (if c then t\<lparr>HighCritical := a, CriticalDelay := b\<rparr> else t) = LowCritical t"
  "HighWarning (if c then t\<lparr>HighCritical := a, CriticalDelay := b\<rparr> else t) = HighWarning t"
  "HighCritical (if c then t\<lparr>HighCritical := a, CriticalDelay := b\<rparr> else t) = (if c then a else HighCritical t)"
  "WarningDelay (if c then t\<lparr>HighCritical := a, CriticalDelay := b\<rparr> else t) = WarningDelay t"
  "CriticalDelay (if c then t\<lparr>HighCritical := a, CriticalDelay := b\<rparr> else t) = (if c then b else CriticalDelay t)"
  by simp_all

lemma Merge_limits:
  "LowWarning (Merge t u) =
     (if isNaN (LowWarning t) \<or> (\<not> isNaN (LowWarning u) \<and> f_lt (LowWarning t) (LowWarning u))
      then LowWarning u else LowWarning t)"
  "LowCritical (Merge t u) =
     (if isNaN (LowCritical t) \<or> (\<not> isNaN (LowCritical u) \<and> f_lt (LowCritical t) (LowCritical u))
      then LowCritical u else LowCritical t)"
  "HighWarning (Merge t u) =
     (if isNaN (HighWarning t) \<or> (\<not> isNaN (HighWarning u) \<and> f_lt (HighWarning u) (HighWarning t))
      then HighWarning u else HighWarning t)"
  "HighCritical (Merge t u) =
     (if isNaN (HighCritical t) \<or> (\<not> isNaN (HighCritical u) \<and> f_lt (HighCritical u) (HighCritical t))
      then HighCritical u else HighCritical t)"
  unfolding Merge_def Let_def limit_if by (rule refl)+

lemma Merge_delays:
  "WarningDelay (Merge t u) =
     (if isNaN (HighWarning t) \<or> (\<not> isNaN (HighWarning u) \<and> f_lt (HighWarning u) (HighWarning t))
      then WarningDelay u
      else if isNaN (LowWarning t) \<or> (\<not> isNaN (LowWarning u) \<and> f_lt (LowWarning t) (LowWarning u))
      then WarningDelay u else WarningDelay t)"
  "CriticalDelay (Merge t u) =
     (if isNaN (HighCritical t) \<or> (\<not> isNaN (HighCritical u) \<and> f_lt (HighCritical u) (HighCritical t))
      then CriticalDelay u
      else if isNaN (LowCritical t) \<or> (\<not> isNaN (LowCritical u) \<and> f_lt (LowCritical t) (LowCritical u))
      then CriticalDelay u else CriticalDelay t)"
  unfolding Merge_def Let_def limit_if by (rule refl)+

lemma Merge_exceeded:
  "f_lt v (LowWarning (Merge t u)) \<longleftrightarrow> f_lt v (LowWarning t) \<or> f_lt v (LowWarning u)"
  "f_lt v (LowCritical (Merge t u)) \<longleftrightarrow> f_lt v (LowCritical t) \<or> f_lt v (LowCritical u)"
  "f_lt (HighWarning (Merge t u)) v \<longleftrightarrow> f_lt (HighWarning t) v \<or> f_lt (HighWarning u) v"
  "f_lt (HighCritical (Merge t u)) v \<longleftrightarrow> f_lt (HighCritical t) v \<or> f_lt (HighCritical u) v"
  unfolding Merge_limits by (rule f_lt_stricter_low f_lt_stricter_high)+

lemma threshold_CurrentStatus_alt:
  "threshold_CurrentStatus t v =
     (if f_lt v (LowCritical t) then (StatusCritical, False)
      else if f_lt v (LowWarning t) then (StatusWarning, False)
      else if f_lt (HighCritical t) v then (StatusCritical, True)
      else if f_lt (HighWarning t) v then (StatusWarning, True)
      else (StatusOk, False))"
proof -
  have "(\<not> isNaN x \<and> f_lt v x) = f_lt v x" "(\<not> isNaN x \<and> f_lt x v) = f_lt x v" for x
    by (cases x; cases v; simp)+
  then show ?thesis unfolding threshold_CurrentStatus_def by simp
qed

text \<open>
  Merging keeps the stricter limits. For a value that is not at once below the low warning
  limit and above the high critical limit of the merged threshold, the merged threshold gives
  the more severe of the two statuses.
\<close>

theorem Merge_severity:
  assumes "\<not> (f_lt v (LowWarning (Merge t u)) \<and> f_lt (HighCritical (Merge t u)) v)"
  shows "severity (fst (threshold_CurrentStatus (Merge t u) v)) =
           max (severity (fst (threshold_CurrentStatus t v))) (severity (fst (threshold_CurrentStatus u v)))"
  using assms unfolding threshold_CurrentStatus_alt Merge_exceeded by auto

theorem Merge_severity_witness:
  "severity (fst (threshold_CurrentStatus
     (Merge (unset_threshold\<lparr>HighWarning := FFin 80, HighCritical := FFin 90\<rparr>)
            (unset_threshold\<lparr>HighWarning := FFin 50\<rparr>)) (FFin 60))) = 1"
  using Merge_severity [of "FFin 60" "unset_threshold\<lparr>HighWarning := FFin 80, HighCritical := FFin 90\<rparr>"
      "unset_threshold\<lparr>HighWarning := FFin 50\<rparr>"]
  by (simp add: Merge_limits threshold_CurrentStatus_def unset_threshold_def math_NaN_def)

lemma Equal_iff:
  "Equal t u \<longleftrightarrow>
     (f_eq (LowCritical t) (LowCritical u) \<or> (isNaN (LowCritical t) \<and> isNaN (LowCritical u))) \<and>
     (f_eq (LowWarning t) (LowWarning u) \<or> (isNaN (LowWarning t) \<and> isNaN (LowWarning u))) \<and>
     (f_eq (HighWarning t) (HighWarning u) \<or> (isNaN (HighWarning t) \<and> isNaN (HighWarning u))) \<and>
     (f_eq (HighCritical t) (HighCritical u) \<or> (isNaN (HighCritical t) \<and> isNaN (HighCritical u)))"
  by (auto simp: Equal_def threshold_eq_def)

text \<open>
  Equality of thresholds ignores the delays. A threshold is \<open>Equal\<close> to itself with any other
  delays, so \<open>SetThresholds\<close> does not see a change of delays as an update.
\<close>

theorem Equal_ignores_delays: "Equal (t\<lparr>WarningDelay := wd, CriticalDelay := cd\<rparr>) t"
  by (simp add: Equal_iff f_eq_refl_iff)

text \<open>
  Merging with an unset threshold changes the delays. Merging a threshold whose low limits
  are unset with a threshold that sets no limit keeps all four limits but takes the delays of
  the threshold without limits.
\<close>

theorem Merge_unset_takes_delays:
  assumes "isNaN (LowWarning t)" "isNaN (LowCritical t)"
  shows "Equal (Merge t (unset_threshold\<lparr>WarningDelay := wd, CriticalDelay := cd\<rparr>)) t \<and>
         WarningDelay (Merge t (unset_threshold\<lparr>WarningDelay := wd, CriticalDelay := cd\<rparr>)) = wd \<and>
         CriticalDelay (Merge t (unset_threshold\<lparr>WarningDelay := wd, CriticalDelay := cd\<rparr>)) = cd"
  using assms by (auto simp: Equal_iff f_eq_refl_iff Merge_limits Merge_delays unset_threshold_def math_NaN_def)

theorem Merge_unset_takes_delays_witness:
  "WarningDelay (Merge (unset_threshold\<lparr>HighWarning := FFin 80, WarningDelay := 300 * second\<rparr>)
     (unset_threshold\<lparr>WarningDelay := 0, CriticalDelay := 0\<rparr>)) = 0"
  using Merge_unset_takes_delays [of "unset_threshold\<lparr>HighWarning := FFin 80, WarningDelay := 300 * second\<rparr>" 0 0]
  by (simp add: unset_threshold_def math_NaN_def)

section \<open>New thresholds, expiry and restart\<close>

definition same_limits :: "Threshold \<Rightarrow> Threshold \<Rightarrow> bool" where
  "same_limits t u \<longleftrightarrow>
     (\<forall>limit \<in> {LowCritical, LowWarning, HighWarning, HighCritical}.
        f_eq (limit t) (limit u) \<or> isNaN (limit t) \<and> isNaN (limit u))"

definition limits_changed :: "(string, Threshold) gomap \<Rightarrow> (string, Threshold) gomap \<Rightarrow> string \<Rightarrow> bool" where
  "limits_changed old new k \<longleftrightarrow>
     (\<exists>o' n. map_of old k = Some o' \<and> map_of new k = Some n \<and> \<not> same_limits n o')"

lemma Equal_same_limits: "Equal t u \<longleftrightarrow> same_limits t u"
  by (auto simp: Equal_iff same_limits_def)

lemma changed_keys_iff:
  assumes "gm_wf new"
  shows "k \<in> set (changed_keys old new) \<longleftrightarrow> limits_changed old new k"
proof
  assume "k \<in> set (changed_keys old new)"
  then obtain n where "(k, n) \<in> set new" "case map_of old k of None \<Rightarrow> False | Some o' \<Rightarrow> \<not> Equal n o'"
    by (auto simp: changed_keys_def)
  then show "limits_changed old new k"
    using assms by (auto simp: limits_changed_def Equal_same_limits split: option.splits)
next
  assume "limits_changed old new k"
  then obtain o' n where on: "map_of old k = Some o'" "(k, n) \<in> set new" "\<not> Equal n o'"
    by (auto simp: limits_changed_def Equal_same_limits dest: map_of_SomeD)
  then have "(k, n) \<in> set (filter (\<lambda>(k, t). case map_of old k of None \<Rightarrow> False | Some o' \<Rightarrow> \<not> Equal t o') new)"
    by simp
  then show "k \<in> set (changed_keys old new)"
    unfolding changed_keys_def set_map by (rule rev_image_eqI) simp
qed

text \<open>
  C20 (installing thresholds). After \<open>SetThresholds\<close> a series whose own threshold was removed has
  no state; one for which a limit of its own threshold, or of the threshold of its metric name, has another value
  starts again from no status and no period; any other keeps its state, also when only a delay changed or
  when it had no threshold before.
\<close>

theorem SetThresholds_states:
  assumes "gm_wf (reg_states r)" "gm_wf withItem" "gm_wf allItem"
  shows "map_of (reg_states (SetThresholds r agentID withItem allItem)) k =
     (case map_of (reg_states r) k of
        None \<Rightarrow> None
      | Some s \<Rightarrow>
          if map_of (reg_thresholds r) k \<noteq> None \<and> map_of withItem k = None then None
          else Some (if limits_changed (reg_thresholds r) withItem k \<or>
                        limits_changed (reg_thresholdsAllItem r) allItem (text_label k LabelName)
                     then reset_state s else s))"
proof -
  have removed: "k \<in> set (filter (\<lambda>k. \<not> gm_mem k withItem) (map fst (reg_thresholds r))) \<longleftrightarrow>
      map_of (reg_thresholds r) k \<noteq> None \<and> map_of withItem k = None"
    by (auto simp: gm_mem_iff map_of_eq_None_iff)
  have "map_of (reg_states (SetThresholds r agentID withItem allItem)) k =
      (case map_of (reg_states r) k of
         None \<Rightarrow> None
       | Some s \<Rightarrow>
           if k \<in> set (filter (\<lambda>k. \<not> gm_mem k withItem) (map fst (reg_thresholds r))) then None
           else Some (if k \<in> set (changed_keys (reg_thresholds r) withItem) \<or>
                         text_label k LabelName \<in> set (changed_keys (reg_thresholdsAllItem r) allItem)
                      then reset_state s else s))"
    by (simp add: SetThresholds_def Let_def map_of_map_val map_of_filter_wf [OF assms(1)] split: option.split)
  then show ?thesis
    unfolding removed changed_keys_iff [OF assms(2)] changed_keys_iff [OF assms(3)] .
qed

theorem SetThresholds_states_witness:
  "map_of (reg_states (SetThresholds
      ((New None)\<lparr>reg_states := [(''a'', zero_state\<lparr>CurrentStatus := StatusOk\<rparr>)],
                  reg_thresholds := [(''a'', unset_threshold)]\<rparr>) [] [] [])) ''a'' = None"
  using SetThresholds_states [of "(New None)\<lparr>reg_states := [(''a'', zero_state\<lparr>CurrentStatus := StatusOk\<rparr>)],
                  reg_thresholds := [(''a'', unset_threshold)]\<rparr>" "[]" "[]" "[]" "''a''"]
  by simp

section \<open>Invariants\<close>

definition state_inv :: "statusState \<Rightarrow> bool" where
  "state_inv s =
     ((CriticalSince s \<noteq> 0 \<longrightarrow> WarningSince s \<noteq> 0 \<and> WarningSince s \<le> CriticalSince s) \<and>
      CriticalSince s \<le> LastUpdate s \<and> WarningSince s \<le> LastUpdate s \<and>
      0 \<le> LastUpdate s \<and> CurrentStatus s \<noteq> StatusUnknown)"

lemma state_inv_zero [simp]: "state_inv zero_state"
  by (simp add: state_inv_def zero_state_def)

lemma state_inv_Update:
  assumes "state_inv s" "0 \<le> now" "st \<noteq> StatusUnknown"
  shows "state_inv (Update s st wd cd now)"
  using assms Update_fields(4) [of s st wd cd now]
  unfolding state_inv_def Update_fields(1-3) by (auto split: if_splits)

lemma state_inv_LastValue [simp]: "state_inv (s\<lparr>LastValue := v\<rparr>) = state_inv s"
  by (simp add: state_inv_def)

lemma state_inv_reset [simp]: "state_inv s \<Longrightarrow> state_inv (reset_state s)"
  by (simp add: state_inv_def reset_state_def)

lemma threshold_CurrentStatus_known [simp]: "fst (threshold_CurrentStatus t v) \<noteq> StatusUnknown"
  "fst (threshold_CurrentStatus t v) \<noteq> StatusUnset"
  by (auto simp: threshold_CurrentStatus_def)

section \<open>Applying thresholds\<close>

abbreviation (input) key_of :: "Registry \<Rightarrow> MetricPoint \<Rightarrow> string" where
  "key_of r p \<equiv> MetricKey (mp_Labels p) (mp_Annotations p) (reg_agentID r)"

abbreviation (input) threshold_of :: "Registry \<Rightarrow> MetricPoint \<Rightarrow> Threshold" where
  "threshold_of r p \<equiv> GetThreshold r (mp_Labels p) (mp_Annotations p)"

abbreviation (input) point_status :: "MetricPoint \<Rightarrow> status" where
  "point_status p \<equiv> sd_CurrentStatus (ann_Status (mp_Annotations p))"

abbreviation (input) series_state :: "Registry \<Rightarrow> string \<Rightarrow> statusState" where
  "series_state r k \<equiv> gm_get_or zero_state (reg_states r) k"

abbreviation (input) same_config :: "Registry \<Rightarrow> Registry \<Rightarrow> bool" where
  "same_config r r' \<equiv> reg_agentID r' = reg_agentID r \<and> reg_units r' = reg_units r \<and>
     reg_thresholds r' = reg_thresholds r \<and> reg_thresholdsAllItem r' = reg_thresholdsAllItem r"

text \<open>The points the engine evaluates: no status yet, a threshold, and a value.\<close>

definition evaluated :: "Registry \<Rightarrow> MetricPoint \<Rightarrow> bool" where
  "evaluated r p \<longleftrightarrow> \<not> IsSet (point_status p) \<and> \<not> IsZero (threshold_of r p) \<and>
     \<not> isNaN (pt_Value (mp_Point p))"

text \<open>The state of a series after one evaluated point.\<close>

definition evaluate :: "Registry \<Rightarrow> gotime \<Rightarrow> MetricPoint \<Rightarrow> statusState \<Rightarrow> statusState" where
  "evaluate r now p s =
     (let t = threshold_of r p; v = pt_Value (mp_Point p)
      in (Update s (fst (threshold_CurrentStatus t v)) (WarningDelay t) (CriticalDelay t) now)
           \<lparr>LastValue := v\<rparr>)"

definition status_point :: "MetricPoint \<Rightarrow> MetricPoint" where
  "status_point p =
     \<lparr>mp_Point = \<lparr>pt_Time = pt_Time (mp_Point p), pt_Value = f_of_int (NagiosCode (point_status p))\<rparr>,
      mp_Labels = gm_set LabelName (lbl (mp_Labels p) LabelName @ ''_status'') (mp_Labels p),
      mp_Annotations = (mp_Annotations p)\<lparr>StatusOf := lbl (mp_Labels p) LabelName\<rparr>\<rparr>"

lemma GetThreshold_states [simp]:
  "GetThreshold (r\<lparr>reg_states := x\<rparr>) l a = GetThreshold r l a"
  by (simp add: GetThreshold_def getThreshold_def Let_def cong: option.case_cong)

lemma evaluated_states [simp]: "evaluated (r\<lparr>reg_states := x\<rparr>) p = evaluated r p"
  by (simp add: evaluated_def)

lemma evaluate_states [simp]: "evaluate (r\<lparr>reg_states := x\<rparr>) now p = evaluate r now p"
  by (rule ext) (simp add: evaluate_def)

lemma evaluate_set [simp]: "CurrentStatus (evaluate r now p s) \<noteq> StatusUnset"
  by (simp add: evaluate_def Let_def Update_fields(5))

lemma addPointWithThreshold_spec:
  assumes "addPointWithThreshold r now ps p (threshold_of r p) (key_of r p) = (r', np, sp)"
  shows "r' = r\<lparr>reg_states := gm_set (key_of r p) (evaluate r now p (series_state r (key_of r p))) (reg_states r)\<rparr>"
    and "mp_Point np = mp_Point p" "mp_Labels np = mp_Labels p"
    and "\<exists>d. mp_Annotations np = (mp_Annotations p)
           \<lparr>ann_Status := \<lparr>sd_CurrentStatus = CurrentStatus (series_state r' (key_of r p)),
                           sd_StatusDescription = d\<rparr>\<rparr>"
    and "sp = status_point np"
proof -
  show r': "r' = r\<lparr>reg_states := gm_set (key_of r p) (evaluate r now p (series_state r (key_of r p))) (reg_states r)\<rparr>"
    using assms
    unfolding addPointWithThreshold_def Let_def split_beta prod.inject evaluate_def
    by simp
  show "mp_Point np = mp_Point p" "mp_Labels np = mp_Labels p"
    using assms unfolding addPointWithThreshold_def Let_def split_beta prod.inject by auto
  show "\<exists>d. mp_Annotations np = (mp_Annotations p)
           \<lparr>ann_Status := \<lparr>sd_CurrentStatus = CurrentStatus (series_state r' (key_of r p)),
                           sd_StatusDescription = d\<rparr>\<rparr>"
    using assms unfolding r' addPointWithThreshold_def Let_def split_beta prod.inject evaluate_def
    by (auto simp: gm_get_or_set)
  show "sp = status_point np"
    using assms unfolding addPointWithThreshold_def Let_def split_beta prod.inject status_point_def
    by (auto simp del: f_of_int_exact)
qed

lemma ApplyThresholds_loop_Cons:
  "ApplyThresholds_loop clock pts i r (p # ps) =
     (if evaluated r p
      then let (r1, np, sp) = addPointWithThreshold r (clock i) pts p (threshold_of r p) (key_of r p);
               (r2, new, st) = ApplyThresholds_loop clock pts (Suc i) r1 ps
           in (r2, np # new, sp # st)
      else let (r2, new, st) = ApplyThresholds_loop clock pts (Suc i) r ps in (r2, p # new, st))"
  by (simp add: evaluated_def GetThreshold_def Let_def)

declare ApplyThresholds_loop.simps(2) [simp del]

text \<open>
  \<open>series_after\<close> is the state of the series \<open>k\<close> after the points \<open>ps\<close>, the first of which has
  index \<open>i\<close>: only the evaluated points of that series count. \<open>applied\<close> relates a point with
  the one the engine returns for it.
\<close>

definition series_after ::
  "Registry \<Rightarrow> (nat \<Rightarrow> gotime) \<Rightarrow> string \<Rightarrow> nat \<Rightarrow> MetricPoint list \<Rightarrow> statusState \<Rightarrow> statusState" where
  "series_after r clock k i ps s =
     fold (\<lambda>(j, p). evaluate r (clock j) p)
       (filter (\<lambda>(j, p). evaluated r p \<and> key_of r p = k) (enumerate i ps)) s"

definition applied :: "Registry \<Rightarrow> MetricPoint \<Rightarrow> MetricPoint \<Rightarrow> bool" where
  "applied r p np \<longleftrightarrow>
     (if evaluated r p
      then mp_Point np = mp_Point p \<and> mp_Labels np = mp_Labels p \<and> IsSet (point_status np) \<and>
           (\<exists>d. mp_Annotations np = (mp_Annotations p)\<lparr>ann_Status := d\<rparr>)
      else np = p)"

lemma series_after_simps [simp]:
  "series_after r clock k i [] s = s"
  "series_after r clock k i (p # ps) s =
     series_after r clock k (Suc i) ps
       (if evaluated r p \<and> key_of r p = k then evaluate r (clock i) p s else s)"
  by (simp_all add: series_after_def)

lemma series_after_states [simp]:
  "series_after (r\<lparr>reg_states := x\<rparr>) clock k i ps s = series_after r clock k i ps s"
  by (simp add: series_after_def)

lemma applied_states [simp]: "applied (r\<lparr>reg_states := x\<rparr>) = applied r"
  by (intro ext) (simp add: applied_def)

lemma ApplyThresholds_loop_cases:
  assumes "ApplyThresholds_loop clock pts i r (p # ps) = (r', new, st)"
  obtains (evaluated) r1 np new2 st2 where "evaluated r p"
      "r1 = r\<lparr>reg_states := gm_set (key_of r p) (evaluate r (clock i) p (series_state r (key_of r p))) (reg_states r)\<rparr>"
      "applied r p np"
      "point_status np = CurrentStatus (evaluate r (clock i) p (series_state r (key_of r p)))"
      "ApplyThresholds_loop clock pts (Suc i) r1 ps = (r', new2, st2)"
      "new = np # new2" "st = status_point np # st2"
  | (kept) new2 where "\<not> evaluated r p" "applied r p p"
      "ApplyThresholds_loop clock pts (Suc i) r ps = (r', new2, st)" "new = p # new2"
proof (cases "evaluated r p")
  case True
  obtain r1 np sp where a: "addPointWithThreshold r (clock i) pts p (threshold_of r p) (key_of r p) = (r1, np, sp)"
    by (metis prod_cases3)
  obtain r2 new2 st2 where l: "ApplyThresholds_loop clock pts (Suc i) r1 ps = (r2, new2, st2)"
    by (metis prod_cases3)
  have eq: "r' = r2" "new = np # new2" "st = sp # st2"
    using assms True a l by (simp_all add: ApplyThresholds_loop_Cons)
  note spec = addPointWithThreshold_spec [OF a]
  have status: "point_status np = CurrentStatus (evaluate r (clock i) p (series_state r (key_of r p)))"
    using spec(4) unfolding spec(1) by (auto simp: gm_get_or_set)
  then have "applied r p np"
    using spec(2-4) True by (auto simp: applied_def IsSet_def)
  then show ?thesis using evaluated [OF True spec(1) _ status] l eq spec(5) by simp
next
  case False
  then show ?thesis using kept assms by (auto simp: ApplyThresholds_loop_Cons applied_def split: prod.splits)
qed

lemma ApplyThresholds_loop_spec:
  assumes "ApplyThresholds_loop clock pts i r ps = (r', new, st)"
  shows "same_config r r'"
    and "list_all2 (applied r) ps new"
    and "st = map (status_point \<circ> snd) (filter (evaluated r \<circ> fst) (zip ps new))"
    and "series_state r' k = series_after r clock k i ps (series_state r k)"
  using assms
proof (induction ps arbitrary: i r r' new st)
  case Nil
  { case 1 then show ?case by simp }
  { case 2 then show ?case by simp }
  { case 3 then show ?case by simp }
  { case 4 then show ?case by simp }
next
  case (Cons p ps)
  have ev: "evaluated (r\<lparr>reg_states := x\<rparr>) = evaluated r" for r x by (rule ext) simp
  { case 1 then show ?case
      by (rule ApplyThresholds_loop_cases) (use Cons.IH(1) in fastforce)+ }
  { case 2 then show ?case
      by (rule ApplyThresholds_loop_cases) (use Cons.IH(2) in fastforce)+ }
  { case 3 then show ?case
    proof (rule ApplyThresholds_loop_cases)
      fix r1 np new2 st2
      assume "evaluated r p" and r1: "r1 = r\<lparr>reg_states := gm_set (key_of r p)
          (evaluate r (clock i) p (series_state r (key_of r p))) (reg_states r)\<rparr>"
        and l: "ApplyThresholds_loop clock pts (Suc i) r1 ps = (r', new2, st2)"
        and "new = np # new2" "st = status_point np # st2"
      then show ?case using Cons.IH(3) [OF l] by (simp add: ev)
    next
      fix new2
      assume "\<not> evaluated r p" "new = p # new2"
        and l: "ApplyThresholds_loop clock pts (Suc i) r ps = (r', new2, st)"
      then show ?case using Cons.IH(3) [OF l] by simp
    qed }
  { case 4 then show ?case
      by (rule ApplyThresholds_loop_cases) (use Cons.IH(4) in \<open>fastforce simp: gm_get_or_set\<close>)+ }
qed

lemma ApplyThresholds_loop_status:
  assumes "ApplyThresholds_loop clock pts i r ps = (r', new, st)" "j < length ps" "evaluated r (ps ! j)"
  shows "point_status (new ! j) =
           CurrentStatus (series_after r clock (key_of r (ps ! j)) i (take (Suc j) ps)
             (series_state r (key_of r (ps ! j))))"
  using assms
proof (induction ps arbitrary: i r r' new st j)
  case (Cons p ps)
  from Cons.prems(1) show ?case
  proof (rule ApplyThresholds_loop_cases)
    fix r1 np new2 st2
    assume ev: "evaluated r p" and r1: "r1 = r\<lparr>reg_states := gm_set (key_of r p)
        (evaluate r (clock i) p (series_state r (key_of r p))) (reg_states r)\<rparr>"
      and np: "point_status np = CurrentStatus (evaluate r (clock i) p (series_state r (key_of r p)))"
      and l: "ApplyThresholds_loop clock pts (Suc i) r1 ps = (r', new2, st2)" and new: "new = np # new2"
    then show ?case
      using Cons.prems(2,3) Cons.IH [OF l, of "j - 1"]
      by (cases j) (simp_all add: gm_get_or_set)
  next
    fix new2
    assume "\<not> evaluated r p" "new = p # new2"
      and l: "ApplyThresholds_loop clock pts (Suc i) r ps = (r', new2, st)"
    then show ?case using Cons.prems(2,3) Cons.IH [OF l, of "j - 1"] by (cases j) simp_all
  qed
qed simp

text \<open>
  C18 (what the engine returns). Every point comes back in its place, with the same labels, time
  and value: a point without status, with a threshold and a value gets a status and keeps its
  other annotations, any other is unchanged. The status points are, in order, those of the
  evaluated points: the name gets the suffix, the value is the Nagios code of the status. The
  thresholds, the units and the agent are left as they are.
\<close>

theorem ApplyThresholds_spec:
  "case ApplyThresholds r clock points of (r', newPoints, statusPoints) \<Rightarrow>
     same_config r r' \<and> list_all2 (applied r) points newPoints \<and>
     statusPoints = map (status_point \<circ> snd) (filter (evaluated r \<circ> fst) (zip points newPoints))"
proof -
  obtain r' new st where l: "ApplyThresholds_loop clock points 0 r points = (r', new, st)"
    by (metis prod_cases3)
  then show ?thesis
    using ApplyThresholds_loop_spec(1-3) [OF l] by (simp only: ApplyThresholds_def prod.case)
qed

text \<open>
  C4 (series do not interfere). The state of a series after a batch is its state before,
  updated by the evaluated points of that series in order, and every evaluated point carries
  the status its series has right after it; points of other series have no influence.
\<close>

theorem ApplyThresholds_series:
  assumes "ApplyThresholds r clock points = (r', newPoints, statusPoints)"
  shows "series_state r' k = series_after r clock k 0 points (series_state r k) \<and>
         (j < length points \<and> evaluated r (points ! j) \<longrightarrow>
            point_status (newPoints ! j) =
              CurrentStatus (series_after r clock (key_of r (points ! j)) 0 (take (Suc j) points)
                (series_state r (key_of r (points ! j)))))"
  using ApplyThresholds_loop_spec(4) ApplyThresholds_loop_status assms
  unfolding ApplyThresholds_def by blast

definition example_registry :: Registry where
  "example_registry = (New None)\<lparr>reg_thresholdsAllItem :=
     [(''cpu_used'', unset_threshold\<lparr>HighWarning := FFin 80, HighCritical := FFin 90\<rparr>)]\<rparr>"

definition example_point :: MetricPoint where
  "example_point = \<lparr>mp_Point = \<lparr>pt_Time = 5, pt_Value = FFin 95\<rparr>,
     mp_Labels = [(''__name__'', ''cpu_used'')], mp_Annotations = zero_annotations\<rparr>"

lemma example_evaluated: "evaluated example_registry example_point"
  by (simp add: evaluated_def example_registry_def example_point_def New_def IsSet_def
      zero_annotations_def zero_status_def GetThreshold_def getThreshold_def gm_get_or_def IsZero_def
      unset_threshold_def math_NaN_def f_eq_def)

theorem ApplyThresholds_series_witness:
  "point_status (fst (snd (ApplyThresholds example_registry (\<lambda>i. 5) [example_point])) ! 0) = StatusCritical"
proof -
  obtain r' new st where a: "ApplyThresholds example_registry (\<lambda>i. 5) [example_point] = (r', new, st)"
    by (metis prod_cases3)
  from ApplyThresholds_series [OF a, of _ 0] show ?thesis
    by (simp add: a example_evaluated)
      (simp add: evaluate_def Let_def example_registry_def example_point_def New_def GetThreshold_def
        getThreshold_def gm_get_or_def IsZero_def unset_threshold_def math_NaN_def f_eq_def
        threshold_CurrentStatus_def Update_def setNewStatus_def zero_state_def)
qed

section \<open>The invariant of the registry\<close>

definition registry_inv :: "Registry \<Rightarrow> bool" where
  "registry_inv r \<longleftrightarrow> gm_wf (reg_states r) \<and> (\<forall>k s. map_of (reg_states r) k = Some s \<longrightarrow> state_inv s)"

lemma registry_inv_states:
  "registry_inv r \<Longrightarrow> reg_states r' = reg_states r \<Longrightarrow> registry_inv r'"
  by (simp add: registry_inv_def)

lemma registry_inv_gm_set:
  "registry_inv r \<Longrightarrow> state_inv s \<Longrightarrow> registry_inv (r\<lparr>reg_states := gm_set k s (reg_states r)\<rparr>)"
  by (auto simp: registry_inv_def gm_wf_set split: if_splits)

lemma registry_inv_series_state: "registry_inv r \<Longrightarrow> state_inv (series_state r k)"
  by (auto simp: registry_inv_def gm_get_or_def split: option.splits)

lemma state_inv_evaluate: "state_inv s \<Longrightarrow> 0 \<le> now \<Longrightarrow> state_inv (evaluate r now p s)"
  by (simp add: evaluate_def Let_def state_inv_Update)

lemma ApplyThresholds_loop_inv:
  assumes "ApplyThresholds_loop clock pts i r ps = (r', new, st)" "registry_inv r" "\<forall>j. 0 \<le> clock j"
  shows "registry_inv r'"
  using assms(1,2)
proof (induction ps arbitrary: i r r' new st)
  case (Cons p ps)
  from Cons.prems(1) show ?case
  proof (rule ApplyThresholds_loop_cases)
    fix r1 np new2 st2
    assume r1: "r1 = r\<lparr>reg_states := gm_set (key_of r p)
        (evaluate r (clock i) p (series_state r (key_of r p))) (reg_states r)\<rparr>"
      and l: "ApplyThresholds_loop clock pts (Suc i) r1 ps = (r', new2, st2)"
    have "registry_inv r1"
      unfolding r1 using Cons.prems(2) assms(3)
      by (intro registry_inv_gm_set state_inv_evaluate registry_inv_series_state) auto
    with Cons.IH [OF l] show ?case .
  next
    fix new2
    assume "ApplyThresholds_loop clock pts (Suc i) r ps = (r', new2, st)"
    with Cons.IH [OF this] Cons.prems(2) show ?case by simp
  qed
qed simp

lemma registry_inv_filter_map:
  assumes "registry_inv r" "\<And>k s. state_inv s \<Longrightarrow> state_inv (f k s)"
  shows "registry_inv (r'\<lparr>reg_states := map (\<lambda>(k, s). (k, f k s)) (filter P (reg_states r))\<rparr>)"
proof -
  have fst: "map fst (map (\<lambda>(k, s). (k, f k s)) xs) = map fst xs" for xs :: "(string, statusState) gomap"
    by (induction xs) auto
  have "gm_wf (map (\<lambda>(k, s). (k, f k s)) (filter P (reg_states r)))"
    unfolding fst using assms(1) by (simp add: registry_inv_def gm_wf_filter)
  moreover have "state_inv s" if "map_of (map (\<lambda>(k, s). (k, f k s)) (filter P (reg_states r))) k = Some s" for k s
    using map_of_SomeD [OF that] assms unfolding registry_inv_def
    by (auto simp: map_of_eq_Some_iff)
  ultimately show ?thesis by (simp add: registry_inv_def)
qed

lemma New_getAsJSONList_states:
  assumes "gm_wf (reg_states r)"
  shows "map_of (reg_states (New (Some (getAsJSONList r)))) = map_of (reg_states r)"
proof -
  have "reg_states (New (Some (getAsJSONList r))) = fold (\<lambda>(k, v). gm_set k v) (reg_states r) []"
    by (simp add: New_def getAsJSONList_def fold_map comp_def case_prod_unfold)
  then show ?thesis
    using map_of_fold_gm_set_pairs [OF assms, of "[]"] by (auto split: option.splits)
qed

text \<open>The registries the agent can have: every operation, and a restart from the saved states.\<close>

inductive registry_reach :: "Registry \<Rightarrow> bool" where
  start: "registry_reach (New None)"
| restart: "registry_reach r \<Longrightarrow> registry_reach (New (Some (getAsJSONList r)))"
| set_thresholds: "registry_reach r \<Longrightarrow> registry_reach (SetThresholds r agentID withItem allItem)"
| set_units: "registry_reach r \<Longrightarrow> registry_reach (SetUnits r units)"
| clean: "registry_reach r \<Longrightarrow> registry_reach (cleanExpired r now)"
| apply_points: "registry_reach r \<Longrightarrow> \<forall>i. 0 \<le> clock i \<Longrightarrow> ApplyThresholds r clock points = (r', newPoints, statusPoints)
    \<Longrightarrow> registry_reach r'"

text \<open>
  C19 (invariant of the states). In every registry the agent can reach each series has one
  state, never an unknown status, and its times are ordered: the critical period started
  after the warning period, which is then also running, and both started no later than the
  last update.
\<close>

theorem registry_reach_inv: "registry_reach r \<Longrightarrow> registry_inv r"
proof (induction rule: registry_reach.induct)
  case start
  then show ?case by (simp add: registry_inv_def New_def)
next
  case (restart r)
  then show ?case
    using New_getAsJSONList_states [of r] by (simp add: registry_inv_def New_def gm_wf_fold_gm_set)
next
  case (set_thresholds r agentID withItem allItem)
  then show ?case
    unfolding SetThresholds_def Let_def by (intro registry_inv_filter_map) auto
next
  case (set_units r units)
  then show ?case by (simp add: SetUnits_def registry_inv_def)
next
  case (clean r now)
  then show ?case
    using registry_inv_filter_map [of r "\<lambda>k s. s"] by (simp add: cleanExpired_def)
next
  case (apply_points r clock points r' newPoints statusPoints)
  show ?case
    by (rule ApplyThresholds_loop_inv [OF apply_points(3) [unfolded ApplyThresholds_def]
          apply_points.IH apply_points(2)])
qed

theorem registry_reach_inv_witness:
  "registry_inv (cleanExpired (SetThresholds (New None) ''agent'' [] [(''cpu_used'', unset_threshold)]) 7)"
  by (intro registry_reach_inv registry_reach.intros)

section \<open>Saving and restoring the states\<close>

lemma gm_wf_cleanExpired: "gm_wf (reg_states r) \<Longrightarrow> gm_wf (reg_states (cleanExpired r now))"
  by (simp add: cleanExpired_def gm_wf_filter)

text \<open>The operations of other goroutines keep one state per series.\<close>

definition others_ok :: "run_round \<Rightarrow> bool" where
  "others_ok rd \<longleftrightarrow> (\<forall>r. gm_wf (reg_states r) \<longrightarrow> gm_wf (reg_states (rd_others rd r)))"

text \<open>Rounds in which neither the context nor the hour asks for it save nothing.\<close>

lemma Run_without_save:
  assumes "\<forall>rd \<in> set rounds. \<not> rd_done rd \<and> time_sub (rd_now rd) lastSave \<le> 60 * (60 * second)" "rd_ctxErr final"
  shows "snd (threshold_Run set_state lastSave rs (rounds @ [final])) = snd rs"
  using assms by (induction rounds arbitrary: rs) (auto simp: Let_def threshold_run_def)

text \<open>
  The interface \<open>State\<close> the registry saves its states in: what was set under the key of the
  status cache is what a later get returns, for the lists that can be encoded.
\<close>

locale status_cache =
  fixes set_state :: "'st \<Rightarrow> jsonState list \<Rightarrow> 'st"
    and get_state :: "'st \<Rightarrow> jsonState list option"
    and storable :: "jsonState list \<Rightarrow> bool"
  assumes get_set: "storable l \<Longrightarrow> get_state (set_state st l) = Some l"
begin

lemma Run_saves:
  assumes "gm_wf (reg_states r)" "\<forall>rd \<in> set rounds. \<not> rd_ctxErr rd \<and> others_ok rd" "rounds \<noteq> []" "rd_done (last rounds)"
    and "threshold_Run set_state lastSave (r, st) (rounds @ [final]) = (r', st')" "rd_ctxErr final"
    and "storable (getAsJSONList r')"
  shows "get_state st' = Some (getAsJSONList r') \<and> gm_wf (reg_states r')"
  using assms
proof (induction rounds arbitrary: lastSave r st)
  case (Cons rd rounds)
  let ?r = "rd_others rd r"
  have wf: "gm_wf (reg_states ?r)" using Cons.prems(1,2) by (simp add: others_ok_def)
  obtain ls st1 where run: "threshold_Run set_state ls (cleanExpired ?r (rd_now rd), st1) (rounds @ [final]) = (r', st')"
    "rd_done rd \<Longrightarrow> st1 = set_state st (getAsJSONList (cleanExpired ?r (rd_now rd)))"
    using Cons.prems(2,5) by (auto simp: Let_def threshold_run_def)
  show ?case
  proof (cases "rounds = []")
    case True
    then show ?thesis using run Cons.prems(4,6,7) wf by (auto simp: get_set gm_wf_cleanExpired)
  next
    case False
    then show ?thesis using Cons.IH [OF _ _ False _ run(1)] Cons.prems wf by (simp add: gm_wf_cleanExpired)
  qed
qed simp

lemma Run_restores:
  assumes "gm_wf (reg_states r)" "\<forall>rd \<in> set rounds. \<not> rd_ctxErr rd \<and> others_ok rd" "rounds \<noteq> []" "rd_done (last rounds)"
    and "threshold_Run set_state lastSave (r, st) (rounds @ [final]) = (r', st')" "rd_ctxErr final"
    and "storable (getAsJSONList r')"
  shows "map_of (reg_states (New (get_state st'))) = map_of (reg_states r')"
  using Run_saves [OF assms] New_getAsJSONList_states by simp

end

end
