(* ===== verification/AgentState.thy ===== *)
theory AgentState
  imports Types
begin

text \<open>
  The persistent state of the agent (\<^verbatim>\<open>agent/state/state.go\<close>): the identity of the agent in
  \<^verbatim>\<open>state.json\<close> and a cache of JSON values in \<^verbatim>\<open>state.cache.json\<close>. The file system is an
  explicit argument, and so are the system calls that fail. A JSON text is represented by its value, so
  two equal values stand for the same bytes; encoding an object to JSON is the argument \<open>marshal\<close> of the
  operations that take one. The keys of the cache are constants of the program. The background writer is a thread of its own: the last part of the theory is the
  step relation of the writer and of the callers.
\<close>

section \<open>JSON values and files\<close>

text \<open>\<open>JTime\<close> is a JSON string that holds an RFC 3339 time, represented by that time.\<close>

datatype json =
    JNull
  | JBool bool
  | JNum rat
  | JStr string
  | JTime gotime
  | JArr "json list"
  | JObj "(string \<times> json) list"

datatype state_error = IOError | DecodeError | VersionIncompatible | MarshalError

text \<open>
  \<open>fs_files\<close> holds the decoded content of every file, \<open>None\<close> for a content that is no JSON value;
  opening a path of \<open>fs_noopen\<close> for reading fails with an error other than \<^verbatim>\<open>ErrNotExist\<close>.
\<close>

record filesystem =
  fs_files :: "(string, json option) gomap"
  fs_noopen :: "string list"

text \<open>The system calls that fail when a file is written; a failed write may leave a part of the bytes.\<close>

record io_faults =
  flt_remove :: bool
  flt_open :: bool
  flt_write :: bool
  flt_rename :: bool

record persistedState =
  Version :: int
  ps_AgentID :: string
  ps_Password :: string
  ps_TelemetryID :: string
  ps_TelemeryID :: string
  ps_dirty :: bool

definition zero_persisted :: persistedState where
  "zero_persisted = \<lparr>Version = 0, ps_AgentID = [], ps_Password = [], ps_TelemetryID = [],
     ps_TelemeryID = [], ps_dirty = False\<rparr>"

definition stateVersion :: int where
  "stateVersion = 1"

record State =
  st_persistent :: persistedState
  st_cache :: "(string, json) gomap"
  st_trigger :: "bool option"
  st_persistentPath :: string
  st_cachePath :: string
  st_isInMemory :: bool
  st_closed :: bool

text \<open>\<^verbatim>\<open>filepath.Ext\<close>: from the last dot of the last path element on, without a dot nothing.\<close>

definition filepath_Ext :: "string \<Rightarrow> string" where
  "filepath_Ext path =
     (let base = takeWhile (\<lambda>c. c \<noteq> CHR ''/'') (rev path);
          e = takeWhile (\<lambda>c. c \<noteq> CHR ''.'') base
      in if CHR ''.'' \<in> set base then CHR ''.'' # rev e else [])"

definition DefaultCachePath :: "string \<Rightarrow> string" where
  "DefaultCachePath persistentPath =
     (let ext = filepath_Ext persistentPath
      in take (length persistentPath - length ext) persistentPath @ ''.cache'' @ ext)"

section \<open>Encoding and decoding\<close>

text \<open>
  A JSON text is UTF-8: the encoder replaces each byte that is not part of a valid encoding by the
  replacement character. \<open>rune_len\<close> is the length of the encoding a text starts with, \<open>0\<close> when it is not valid.
\<close>

definition byte_in :: "nat \<Rightarrow> nat \<Rightarrow> string \<Rightarrow> nat \<Rightarrow> bool" where
  "byte_in lo hi s i \<longleftrightarrow> i < length s \<and> lo \<le> of_char (s ! i) \<and> of_char (s ! i) \<le> hi"

definition rune_len :: "string \<Rightarrow> nat" where
  "rune_len s =
     (if byte_in 0 0x7F s 0 then 1
      else if byte_in 0xC2 0xDF s 0 \<and> byte_in 0x80 0xBF s 1 then 2
      else if (byte_in 0xE0 0xE0 s 0 \<and> byte_in 0xA0 0xBF s 1 \<or> byte_in 0xED 0xED s 0 \<and> byte_in 0x80 0x9F s 1 \<or>
               (byte_in 0xE1 0xEC s 0 \<or> byte_in 0xEE 0xEF s 0) \<and> byte_in 0x80 0xBF s 1) \<and> byte_in 0x80 0xBF s 2 then 3
      else if (byte_in 0xF0 0xF0 s 0 \<and> byte_in 0x90 0xBF s 1 \<or> byte_in 0xF4 0xF4 s 0 \<and> byte_in 0x80 0x8F s 1 \<or>
               byte_in 0xF1 0xF3 s 0 \<and> byte_in 0x80 0xBF s 1) \<and> byte_in 0x80 0xBF s 2 \<and> byte_in 0x80 0xBF s 3 then 4
      else 0)"

function json_text :: "string \<Rightarrow> string" where
  "json_text s =
     (if s = [] then []
      else if rune_len s = 0 then CHR 0xEF # CHR 0xBF # CHR 0xBD # json_text (drop 1 s)
      else take (rune_len s) s @ json_text (drop (rune_len s) s))"
  by pat_completeness auto
termination
  by (relation "measure length") auto

declare json_text.simps [simp del]

function valid_utf8 :: "string \<Rightarrow> bool" where
  "valid_utf8 s = (if s = [] then True else if rune_len s = 0 then False else valid_utf8 (drop (rune_len s) s))"
  by pat_completeness auto
termination
  by (relation "measure length") auto

declare valid_utf8.simps [simp del]

lemma json_text_Nil [simp]: "json_text [] = []"
  by (simp add: json_text.simps)

lemma json_text_eq_Nil [simp]: "json_text s = [] \<longleftrightarrow> s = []"
  by (subst json_text.simps) simp

lemma json_text_valid: "valid_utf8 s \<Longrightarrow> json_text s = s"
proof (induction s rule: json_text.induct)
  case (1 s)
  then show ?case
    using valid_utf8.simps [of s] by (auto simp: json_text.simps [of s] split: if_splits)
qed

text \<open>
  \<open>dec_string\<close> and \<open>dec_int\<close> decode one field of a struct: a missing field and \<^verbatim>\<open>null\<close> keep the
  old value, a value of another type is an error.
\<close>

fun dec_string :: "json option \<Rightarrow> string \<Rightarrow> string option" where
  "dec_string None old = Some old"
| "dec_string (Some JNull) old = Some old"
| "dec_string (Some (JStr s)) old = Some s"
| "dec_string _ old = None"

fun dec_int :: "json option \<Rightarrow> int \<Rightarrow> int option" where
  "dec_int None old = Some old"
| "dec_int (Some JNull) old = Some old"
| "dec_int (Some (JNum n)) old = (if of_int \<lfloor>n\<rfloor> = n then Some \<lfloor>n\<rfloor> else None)"
| "dec_int _ old = None"

fun decode_persisted :: "json option \<Rightarrow> persistedState \<Rightarrow> persistedState option" where
  "decode_persisted (Some (JObj o')) p =
     (case (dec_int (map_of o' ''version'') (Version p),
            dec_string (map_of o' ''agent_uuid'') (ps_AgentID p),
            dec_string (map_of o' ''password'') (ps_Password p),
            dec_string (map_of o' ''telemetry_id'') (ps_TelemetryID p),
            dec_string (map_of o' ''telemery_id'') (ps_TelemeryID p)) of
        (Some v, Some a, Some pw, Some t, Some t') \<Rightarrow>
          Some (p\<lparr>Version := v, ps_AgentID := a, ps_Password := pw, ps_TelemetryID := t,
                  ps_TelemeryID := t'\<rparr>)
      | _ \<Rightarrow> None)"
| "decode_persisted (Some JNull) p = Some p"
| "decode_persisted _ p = None"

definition savePersistentTo :: "persistedState \<Rightarrow> json" where
  "savePersistentTo p =
     JObj ([(''version'', JNum (of_int (Version p))), (''agent_uuid'', JStr (json_text (ps_AgentID p))),
            (''password'', JStr (json_text (ps_Password p))), (''telemetry_id'', JStr (json_text (ps_TelemetryID p)))]
           @ (if ps_TelemeryID p = [] then [] else [(''telemery_id'', JStr (json_text (ps_TelemeryID p)))]))"

text \<open>Decoding into a map that already has entries keeps them and sets those of the text.\<close>

fun decode_cache :: "json option \<Rightarrow> (string, json) gomap \<Rightarrow> (string, json) gomap option" where
  "decode_cache (Some (JObj o')) m = Some (fold (\<lambda>(k, v). gm_set k v) o' m)"
| "decode_cache (Some JNull) m = Some []"
| "decode_cache _ m = None"

definition saveCacheTo :: "State \<Rightarrow> json" where
  "saveCacheTo s = JObj (st_cache s)"

section \<open>Loading\<close>

text \<open>\<open>state_Get\<close> for a string and for the field \<^verbatim>\<open>ID\<close> of a struct; a missing key is no error.\<close>

definition state_Get_string :: "State \<Rightarrow> string \<Rightarrow> string \<Rightarrow> string option" where
  "state_Get_string s key old = dec_string (map_of (st_cache s) key) old"

fun dec_ID :: "json option \<Rightarrow> string option" where
  "dec_ID None = Some []"
| "dec_ID (Some JNull) = Some []"
| "dec_ID (Some (JObj o')) = dec_string (map_of o' ''ID'') []"
| "dec_ID _ = None"

definition loadFromV0 :: "filesystem \<Rightarrow> State \<Rightarrow> state_error + State" where
  "loadFromV0 fs s =
     (case (if st_persistentPath s \<in> set (fs_noopen fs) then None
            else map_of (fs_files fs) (st_persistentPath s)) of
        None \<Rightarrow> Inl IOError
      | Some content \<Rightarrow>
          (case decode_cache content (st_cache s) of
             None \<Rightarrow> Inl DecodeError
           | Some c \<Rightarrow>
               let s = s\<lparr>st_cache := c\<rparr> in
               (case state_Get_string s ''agent_uuid'' (ps_AgentID (st_persistent s)) of
                  None \<Rightarrow> Inl DecodeError
                | Some a \<Rightarrow>
                    (case state_Get_string s ''password'' (ps_Password (st_persistent s)) of
                       None \<Rightarrow> Inl DecodeError
                     | Some pw \<Rightarrow>
                         let p = (st_persistent s)\<lparr>ps_AgentID := a, ps_Password := pw\<rparr>;
                             p = (case dec_ID (map_of c ''Telemetry'') of
                                    None \<Rightarrow> p | Some t \<Rightarrow> p\<lparr>ps_TelemetryID := t\<rparr>);
                             c = gm_del ''Telemetry'' (gm_del ''password'' (gm_del ''agent_uuid'' c))
                         in Inr (s\<lparr>st_persistent := p\<lparr>Version := 1, ps_dirty := True\<rparr>,
                                   st_cache := c\<rparr>)))))"

text \<open>The upgrade loop of \<open>load\<close>; \<open>n\<close> is \<open>upgradeCount\<close>, which the loop itself bounds.\<close>

function upgrade_loop :: "filesystem \<Rightarrow> int \<Rightarrow> State \<Rightarrow> state_error + State" where
  "upgrade_loop fs n s =
     (if Version (st_persistent s) \<noteq> stateVersion then
        if stateVersion + 1 < n then Inl VersionIncompatible
        else (case loadFromV0 fs s of Inl e \<Rightarrow> Inl e | Inr s' \<Rightarrow> upgrade_loop fs (n + 1) s')
      else Inr s)"
  by pat_completeness auto
termination
  by (relation "measure (\<lambda>(fs, n, s). nat (stateVersion + 2 - n))") auto

declare upgrade_loop.simps [simp del]

definition migrate_telemery :: "persistedState \<Rightarrow> persistedState" where
  "migrate_telemery p =
     (if ps_TelemetryID p = []
      then p\<lparr>ps_TelemetryID := ps_TelemeryID p, ps_TelemeryID := [], ps_dirty := True\<rparr> else p)"

definition load :: "filesystem \<Rightarrow> bool \<Rightarrow> string \<Rightarrow> string \<Rightarrow> state_error + State" where
  "load fs readOnly persistentPath cachePath =
     (let s = \<lparr>st_persistent = zero_persisted, st_cache = [], st_trigger = None,
               st_persistentPath = (if readOnly then [] else persistentPath),
               st_cachePath = (if readOnly then [] else cachePath),
               st_isInMemory = readOnly, st_closed = False\<rparr>;
          load_cache = (\<lambda>s.
            if cachePath = [] \<or> cachePath \<in> set (fs_noopen fs) then s
            else (case map_of (fs_files fs) cachePath of
                    None \<Rightarrow> s
                  | Some content \<Rightarrow>
                      (case decode_cache content (st_cache s) of
                         None \<Rightarrow> s | Some c \<Rightarrow> s\<lparr>st_cache := c\<rparr>)))
      in if persistentPath \<noteq> [] then
           if persistentPath \<in> set (fs_noopen fs) then Inl IOError
           else (case map_of (fs_files fs) persistentPath of
                   None \<Rightarrow> Inr (s\<lparr>st_persistent := zero_persisted\<lparr>Version := stateVersion, ps_dirty := True\<rparr>\<rparr>)
                 | Some content \<Rightarrow>
                     (case decode_persisted content zero_persisted of
                        None \<Rightarrow> Inl DecodeError
                      | Some p \<Rightarrow>
                          upgrade_loop fs 0 (load_cache (s\<lparr>st_persistent := migrate_telemery p\<rparr>))))
         else upgrade_loop fs 0
                (load_cache (s\<lparr>st_persistent := zero_persisted\<lparr>Version := stateVersion\<rparr>\<rparr>)))"

definition Load :: "filesystem \<Rightarrow> string \<Rightarrow> string \<Rightarrow> state_error + State" where
  "Load fs persistentPath cachePath = load fs False persistentPath cachePath"

definition LoadReadOnly :: "filesystem \<Rightarrow> string \<Rightarrow> string \<Rightarrow> state_error + State" where
  "LoadReadOnly fs persistentPath cachePath = load fs True persistentPath cachePath"

definition IsEmpty :: "State \<Rightarrow> bool" where
  "IsEmpty s = (length (st_cache s) = 0)"

section \<open>Writing files\<close>

text \<open>
  A file is written to a temporary path and renamed. The operations give the states the file system goes through,
  one for each system call that changes it, and the error; \<open>fs_after\<close> is the last of these states. A temporary file
  is created empty, which is no JSON value, and a write that fails leaves it so or with a part of the bytes.
\<close>

definition fs_after :: "filesystem \<Rightarrow> filesystem list \<Rightarrow> filesystem" where
  "fs_after fs tr = last (fs # tr)"

definition tmpExt :: string where
  "tmpExt = ''.tmp''"

definition createTempFile :: "io_faults \<Rightarrow> filesystem \<Rightarrow> string \<Rightarrow> filesystem list \<times> state_error option" where
  "createTempFile F fs path =
     (if flt_remove F then ([], Some IOError)
      else let removed = fs\<lparr>fs_files := gm_del path (fs_files fs)\<rparr>
           in if flt_open F then ([removed], Some IOError)
              else ([removed, removed\<lparr>fs_files := gm_set path None (fs_files removed)\<rparr>], None))"

definition os_Rename :: "bool \<Rightarrow> filesystem \<Rightarrow> string \<Rightarrow> string \<Rightarrow> state_error + filesystem" where
  "os_Rename fails fs old new =
     (case map_of (fs_files fs) old of
        None \<Rightarrow> Inl IOError
      | Some content \<Rightarrow>
          if fails then Inl IOError else Inr (fs\<lparr>fs_files := gm_set new content (gm_del old (fs_files fs))\<rparr>))"

definition write_file :: "io_faults \<Rightarrow> filesystem \<Rightarrow> string \<Rightarrow> json \<Rightarrow> filesystem list \<times> state_error option" where
  "write_file F fs path content =
     (case createTempFile F fs (path @ tmpExt) of
        (tr, Some e) \<Rightarrow> (tr, Some e)
      | (tr, None) \<Rightarrow>
          if flt_write F then (tr, Some IOError)
          else
            let fs = fs_after fs tr;
                fs = fs\<lparr>fs_files := gm_set (path @ tmpExt) (Some content) (fs_files fs)\<rparr>
            in case os_Rename (flt_rename F) fs (path @ tmpExt) path of
                 Inl e \<Rightarrow> (tr @ [fs], Some e)
               | Inr fs' \<Rightarrow> (tr @ [fs, fs'], None))"

definition savePersistent :: "io_faults \<Rightarrow> filesystem \<Rightarrow> State \<Rightarrow> filesystem list \<times> State \<times> state_error option" where
  "savePersistent F fs s =
     (if st_isInMemory s then ([], s, None)
      else if ps_dirty (st_persistent s) then
        (case write_file F fs (st_persistentPath s) (savePersistentTo (st_persistent s)) of
           (tr, Some e) \<Rightarrow> (tr, s, Some e)
         | (tr, None) \<Rightarrow> (tr, s\<lparr>st_persistent := (st_persistent s)\<lparr>ps_dirty := False\<rparr>\<rparr>, None))
      else ([], s, None))"

section \<open>Triggering the background writer\<close>

text \<open>
  \<^verbatim>\<open>backgroundWriteTrigger\<close> is a channel of capacity one. \<open>None\<close> is the case where a blocking
  send has to wait for room.
\<close>

definition triggerCacheWrite :: "State \<Rightarrow> bool \<Rightarrow> bool \<Rightarrow> State option" where
  "triggerCacheWrite s blocking onlyIfFileExists =
     (if st_closed s then Some s
      else (case st_trigger s of
              None \<Rightarrow> Some (s\<lparr>st_trigger := Some onlyIfFileExists\<rparr>)
            | Some _ \<Rightarrow> if blocking then None else Some s))"

definition saveCacheIfFileNotDeleted :: "State \<Rightarrow> State" where
  "saveCacheIfFileNotDeleted s =
     (if st_isInMemory s then s
      else (case triggerCacheWrite s False True of None \<Rightarrow> s | Some s' \<Rightarrow> s'))"

definition KeepOnlyPersistent :: "State \<Rightarrow> State" where
  "KeepOnlyPersistent s = saveCacheIfFileNotDeleted (s\<lparr>st_cache := []\<rparr>)"

text \<open>\<open>SaveTo\<close> up to the blocking trigger, which \<open>world_step\<close> makes a step of its own.\<close>

definition SaveTo_files ::
  "io_faults \<Rightarrow> filesystem \<Rightarrow> State \<Rightarrow> string \<Rightarrow> string \<Rightarrow> filesystem list \<times> State \<times> state_error option" where
  "SaveTo_files F fs s persistentPath cachePath =
     savePersistent F fs (s\<lparr>st_persistentPath := persistentPath, st_cachePath := cachePath,
                          st_isInMemory := False\<rparr>)"

definition state_set :: "('a \<Rightarrow> json option) \<Rightarrow> State \<Rightarrow> string \<Rightarrow> 'a \<Rightarrow> (State \<times> bool) option" where
  "state_set marshal s key object =
     (case marshal object of
        None \<Rightarrow> None
      | Some buffer \<Rightarrow>
          Some (s\<lparr>st_cache := gm_set key buffer (st_cache s)\<rparr>,
                map_of (st_cache s) key \<noteq> Some buffer))"

definition state_Set :: "('a \<Rightarrow> json option) \<Rightarrow> State \<Rightarrow> string \<Rightarrow> 'a \<Rightarrow> State \<times> state_error option" where
  "state_Set marshal s key object =
     (case state_set marshal s key object of
        None \<Rightarrow> (s, Some MarshalError)
      | Some (s', modified) \<Rightarrow>
          (if modified then saveCacheIfFileNotDeleted s' else s', None))"

definition state_Delete :: "State \<Rightarrow> string \<Rightarrow> State" where
  "state_Delete s key =
     (if \<not> gm_mem key (st_cache s) then s
      else saveCacheIfFileNotDeleted (s\<lparr>st_cache := gm_del key (st_cache s)\<rparr>))"

text \<open>\<open>Get\<close> into a variable that holds \<open>old\<close>; \<open>unmarshal\<close> decodes the type of the variable.\<close>

definition state_Get :: "(json \<Rightarrow> 'a option) \<Rightarrow> State \<Rightarrow> string \<Rightarrow> 'a \<Rightarrow> state_error + 'a" where
  "state_Get unmarshal s key old =
     (case map_of (st_cache s) key of
        None \<Rightarrow> Inr old
      | Some buffer \<Rightarrow> (case unmarshal buffer of None \<Rightarrow> Inl DecodeError | Some x \<Rightarrow> Inr x))"

text \<open>\<open>decode\<close> is the decoding into the result type; what it cannot represent is skipped.\<close>

definition GetByPrefix :: "(json \<Rightarrow> 'a option) \<Rightarrow> State \<Rightarrow> string \<Rightarrow> (string, 'a) gomap" where
  "GetByPrefix decode s keyPrefix =
     List.map_filter
       (\<lambda>(key, value).
          if take (length keyPrefix) key = keyPrefix then map_option (Pair key) (decode value) else None)
       (st_cache s)"

text \<open>\<open>Close\<close>: the channel accepts no message any more; what it holds is still received.\<close>

definition state_Close :: "State \<Rightarrow> State" where
  "state_Close s = s\<lparr>st_closed := True\<rparr>"

section \<open>Identity of the agent\<close>

definition BleemeoCredentials :: "State \<Rightarrow> string \<times> string" where
  "BleemeoCredentials s = (ps_AgentID (st_persistent s), ps_Password (st_persistent s))"

definition SetBleemeoCredentials ::
  "io_faults \<Rightarrow> filesystem \<Rightarrow> State \<Rightarrow> string \<Rightarrow> string \<Rightarrow> filesystem list \<times> State \<times> state_error option" where
  "SetBleemeoCredentials F fs s agentUUID password =
     savePersistent F fs
       (s\<lparr>st_persistent := (st_persistent s)\<lparr>ps_AgentID := agentUUID, ps_Password := password,
                                             ps_dirty := True\<rparr>\<rparr>)"

text \<open>\<open>newID\<close> is the value of \<^verbatim>\<open>uuid.New().String()\<close>.\<close>

definition generateTelemetryID ::
  "io_faults \<Rightarrow> filesystem \<Rightarrow> State \<Rightarrow> string \<Rightarrow> filesystem list \<times> State \<times> string" where
  "generateTelemetryID F fs s newID =
     (if ps_TelemetryID (st_persistent s) = [] then
        let s = s\<lparr>st_persistent := (st_persistent s)\<lparr>ps_TelemetryID := newID, ps_dirty := True\<rparr>\<rparr>;
            (tr, s', _) = savePersistent F fs s
        in (tr, s', newID)
      else ([], s, ps_TelemetryID (st_persistent s)))"

definition state_TelemetryID ::
  "io_faults \<Rightarrow> filesystem \<Rightarrow> State \<Rightarrow> string \<Rightarrow> filesystem list \<times> State \<times> string" where
  "state_TelemetryID F fs s newID =
     (if ps_TelemetryID (st_persistent s) \<noteq> [] then ([], s, ps_TelemetryID (st_persistent s))
      else generateTelemetryID F fs s newID)"

section \<open>The writer thread and the callers\<close>

text \<open>
  \<open>writeCache\<close> runs in phases: after a message is received it looks at the file without the lock, then takes
  the read lock to serialise the cache, then writes the bytes without the lock. No other thread uses the
  temporary path of the cache, so the write is one step. \<open>w_result\<close> is how the last \<open>writeCache\<close> ended. \<open>SaveTo\<close> holds
  the write lock of the state while it waits for room in the channel (\<open>w_saver\<close>); every other
  operation takes the lock for its whole duration and never waits.
\<close>

datatype writer = WIdle | WReceived bool | WChecked | WSerialized json string

datatype write_result = ResNotRun | ResWritten | ResNoFile | ResInMemory | ResFailed

record world =
  w_state :: State
  w_fs :: filesystem
  w_writer :: writer
  w_result :: write_result
  w_saver :: bool

abbreviation (input) cache_file :: "world \<Rightarrow> json option option" where
  "cache_file w \<equiv> map_of (fs_files (w_fs w)) (st_cachePath (w_state w))"

inductive world_step :: "world \<Rightarrow> world \<Rightarrow> bool" where
  set_key: "\<not> w_saver w \<Longrightarrow> world_step w (w\<lparr>w_state := fst (state_Set Some (w_state w) key v)\<rparr>)"
| delete_key: "\<not> w_saver w \<Longrightarrow> world_step w (w\<lparr>w_state := state_Delete (w_state w) key\<rparr>)"
| keep_persistent: "\<not> w_saver w \<Longrightarrow> world_step w (w\<lparr>w_state := KeepOnlyPersistent (w_state w)\<rparr>)"
| close_state: "\<not> w_saver w \<Longrightarrow> world_step w (w\<lparr>w_state := state_Close (w_state w)\<rparr>)"
| set_credentials: "\<not> w_saver w \<Longrightarrow> SetBleemeoCredentials F (w_fs w) (w_state w) a p = (tr, s, err) \<Longrightarrow>
    world_step w (w\<lparr>w_fs := fs_after (w_fs w) tr, w_state := s\<rparr>)"
| telemetry_id: "\<not> w_saver w \<Longrightarrow> state_TelemetryID F (w_fs w) (w_state w) newID = (tr, s, i) \<Longrightarrow>
    world_step w (w\<lparr>w_fs := fs_after (w_fs w) tr, w_state := s\<rparr>)"
| save_begin: "\<not> w_saver w \<Longrightarrow> SaveTo_files F (w_fs w) (w_state w) p c = (tr, s, err) \<Longrightarrow>
    world_step w (w\<lparr>w_fs := fs_after (w_fs w) tr, w_state := s, w_saver := err = None\<rparr>)"
| save_send: "w_saver w \<Longrightarrow> triggerCacheWrite (w_state w) True False = Some s \<Longrightarrow>
    world_step w (w\<lparr>w_state := s, w_saver := False\<rparr>)"
| receive: "w_writer w = WIdle \<Longrightarrow> st_trigger (w_state w) = Some b \<Longrightarrow>
    world_step w (w\<lparr>w_state := (w_state w)\<lparr>st_trigger := None\<rparr>, w_writer := WReceived b\<rparr>)"
| stat_missing: "w_writer w = WReceived True \<Longrightarrow> cache_file w = None \<Longrightarrow>
    world_step w (w\<lparr>w_writer := WIdle, w_result := ResNoFile\<rparr>)"
| stat_error: "w_writer w = WReceived True \<Longrightarrow> world_step w (w\<lparr>w_writer := WIdle, w_result := ResFailed\<rparr>)"
| stat_ok: "w_writer w = WReceived b \<Longrightarrow> b \<longrightarrow> cache_file w \<noteq> None \<Longrightarrow> world_step w (w\<lparr>w_writer := WChecked\<rparr>)"
| serialize: "w_writer w = WChecked \<Longrightarrow> \<not> w_saver w \<Longrightarrow> \<not> st_isInMemory (w_state w) \<Longrightarrow>
    world_step w (w\<lparr>w_writer := WSerialized (saveCacheTo (w_state w)) (st_cachePath (w_state w))\<rparr>)"
| in_memory: "w_writer w = WChecked \<Longrightarrow> \<not> w_saver w \<Longrightarrow> st_isInMemory (w_state w) \<Longrightarrow>
    world_step w (w\<lparr>w_writer := WIdle, w_result := ResInMemory\<rparr>)"
| write_out: "w_writer w = WSerialized data path \<Longrightarrow> write_file F (w_fs w) path data = (tr, err) \<Longrightarrow>
    world_step w (w\<lparr>w_fs := fs_after (w_fs w) tr, w_writer := WIdle,
                    w_result := (if err = None then ResWritten else ResFailed)\<rparr>)"

inductive_cases world_stepE: "world_step w w'"

section \<open>Saving and loading\<close>

lemma tmpExt_neq [simp]: "tmpExt \<noteq> []" "path @ tmpExt \<noteq> path" "path \<noteq> path @ tmpExt"
  by (simp_all add: tmpExt_def)

lemma fs_after_simps [simp]: "fs_after fs [] = fs" "fs_after fs (tr @ [x]) = x" "fs_after fs (tr @ [x, y]) = y"
  by (simp_all add: fs_after_def)

text \<open>
  The target of a write is at every moment what it was or what is written, and the latter at the end when
  no error is returned, the former otherwise; no file but the target and the temporary one is touched.
\<close>

lemma write_file_atomic:
  assumes "write_file F fs path content = (tr, err)"
  shows "map_of (fs_files (fs_after fs tr)) path = (if err = None then Some (Some content) else map_of (fs_files fs) path)"
    and "fs' \<in> set tr \<Longrightarrow> map_of (fs_files fs') path \<in> {map_of (fs_files fs) path, Some (Some content)}"
    and "fs' \<in> set (fs # tr) \<Longrightarrow> p \<notin> {path, path @ tmpExt} \<Longrightarrow> map_of (fs_files fs') p = map_of (fs_files fs) p"
    and "fs' \<in> set (fs # tr) \<Longrightarrow> fs_noopen fs' = fs_noopen fs"
  using assms
  by (auto simp: write_file_def createTempFile_def os_Rename_def Let_def fs_after_def split: if_splits)

lemma fs_after_in: "fs_after fs tr \<in> set (fs # tr)"
  unfolding fs_after_def by (rule last_in_set) simp

lemma decode_savePersistentTo:
  "decode_persisted (Some (savePersistentTo p)) zero_persisted =
     Some (p\<lparr>ps_AgentID := json_text (ps_AgentID p), ps_Password := json_text (ps_Password p),
             ps_TelemetryID := json_text (ps_TelemetryID p), ps_TelemeryID := json_text (ps_TelemeryID p), ps_dirty := False\<rparr>)"
  by (simp add: savePersistentTo_def zero_persisted_def)

lemma loadFromV0_cases: "loadFromV0 fs s = Inr s' \<Longrightarrow> Version (st_persistent s') = stateVersion"
  by (auto simp: loadFromV0_def Let_def stateVersion_def split: option.splits if_splits)

lemma loadFromV0_error: "loadFromV0 fs s \<noteq> Inl VersionIncompatible"
  by (simp add: loadFromV0_def Let_def split: option.splits)

lemma upgrade_loop_current [simp]:
  "Version (st_persistent s) = stateVersion \<Longrightarrow> upgrade_loop fs n s = Inr s"
  by (simp add: upgrade_loop.simps)

lemma upgrade_loop_once:
  "upgrade_loop fs 0 s =
     (if Version (st_persistent s) = stateVersion then Inr s else loadFromV0 fs s)"
proof -
  have "\<not> stateVersion + 1 < 0" by (simp add: stateVersion_def)
  then show ?thesis
    by (subst upgrade_loop.simps) (auto simp: loadFromV0_cases split: sum.splits)
qed

text \<open>
  A state file of any other version is read as version 0. Loading never reports an
  incompatible version: the upgrade loop runs at most once, and a file whose version is not the
  current one, a newer one included, is read by the upgrade from version 0.
\<close>

theorem load_never_incompatible:
  "load fs readOnly persistentPath cachePath \<noteq> Inl VersionIncompatible \<and>
   upgrade_loop fs 0 s = (if Version (st_persistent s) = stateVersion then Inr s else loadFromV0 fs s)"
  using loadFromV0_error
  by (simp add: load_def Let_def upgrade_loop_once split: option.splits)

text \<open>Loading depends on the two files only.\<close>

lemma load_cong:
  assumes "map_of (fs_files fs') p = map_of (fs_files fs) p" "map_of (fs_files fs') c = map_of (fs_files fs) c"
    "fs_noopen fs' = fs_noopen fs"
  shows "Load fs' p c = Load fs p c"
proof -
  have "loadFromV0 fs' s = loadFromV0 fs s" if "st_persistentPath s = p" for s
    using assms that by (simp add: loadFromV0_def)
  then show ?thesis
    using assms by (simp add: Load_def load_def Let_def upgrade_loop_once split: option.split)
qed

text \<open>What loading gives when the state file holds a state of the current version.\<close>

lemma Load_saved:
  assumes "map_of (fs_files fs) path = Some (Some (savePersistentTo p))" "Version p = stateVersion"
    "path \<noteq> []" "path \<notin> set (fs_noopen fs)"
  shows "\<exists>s. Load fs path c = Inr s \<and> BleemeoCredentials s = (json_text (ps_AgentID p), json_text (ps_Password p))"
  using assms
  by (auto simp: Load_def load_def Let_def decode_savePersistentTo migrate_telemery_def
      BleemeoCredentials_def upgrade_loop_once split: option.splits)

lemma Load_noopen: "Load fs path c = Inr s \<Longrightarrow> path \<noteq> [] \<Longrightarrow> path \<notin> set (fs_noopen fs)"
  by (auto simp: Load_def load_def Let_def split: if_splits)

lemma SetBleemeoCredentials_write:
  assumes "SetBleemeoCredentials F fs s agentUUID password = (tr, s', err)" "\<not> st_isInMemory s"
  shows "write_file F fs (st_persistentPath s) (savePersistentTo
    ((st_persistent s)\<lparr>ps_AgentID := agentUUID, ps_Password := password, ps_dirty := True\<rparr>)) = (tr, err)"
  using assms by (auto simp: SetBleemeoCredentials_def savePersistent_def split: prod.splits option.splits)

text \<open>
  C24 (credentials survive a restart). When setting the credentials reports no error on a state
  that is kept on disk, loading the same path gives a state with those credentials, in which bytes that are
  not valid UTF-8 are replaced; valid credentials come back unchanged.
\<close>

theorem SetBleemeoCredentials_Load:
  assumes "SetBleemeoCredentials F fs s agentUUID password = (tr, s', None)"
    and "\<not> st_isInMemory s" "Version (st_persistent s) = stateVersion"
    and "st_persistentPath s \<noteq> []" "st_persistentPath s \<notin> set (fs_noopen fs)"
  shows "\<exists>s''. Load (fs_after fs tr) (st_persistentPath s) cachePath = Inr s'' \<and>
           BleemeoCredentials s'' = (json_text agentUUID, json_text password) \<and>
           (valid_utf8 agentUUID \<and> valid_utf8 password \<longrightarrow> BleemeoCredentials s'' = (agentUUID, password))"
proof -
  note w = write_file_atomic [OF SetBleemeoCredentials_write [OF assms(1,2)]]
  obtain s'' where "Load (fs_after fs tr) (st_persistentPath s) cachePath = Inr s''"
    "BleemeoCredentials s'' = (json_text agentUUID, json_text password)"
    using Load_saved [OF w(1) [simplified], of cachePath] w(4) [OF fs_after_in] assms(3-5) by auto
  then show ?thesis by (auto simp: json_text_valid)
qed

definition no_faults :: io_faults where
  "no_faults = \<lparr>flt_remove = False, flt_open = False, flt_write = False, flt_rename = False\<rparr>"

definition example_fs :: filesystem where
  "example_fs = \<lparr>fs_files = [], fs_noopen = []\<rparr>"

definition example_state :: State where
  "example_state = \<lparr>st_persistent = zero_persisted\<lparr>Version := 1\<rparr>, st_cache = [], st_trigger = None,
     st_persistentPath = ''state.json'', st_cachePath = ''state.cache.json'', st_isInMemory = False,
     st_closed = False\<rparr>"

theorem SetBleemeoCredentials_Load_witness:
  "\<exists>tr s' s''. SetBleemeoCredentials no_faults example_fs example_state ''id'' ''pw'' = (tr, s', None) \<and>
     Load (fs_after example_fs tr) ''state.json'' ''state.cache.json'' = Inr s'' \<and> BleemeoCredentials s'' = (''id'', ''pw'')"
proof -
  obtain tr s' where s: "SetBleemeoCredentials no_faults example_fs example_state ''id'' ''pw'' = (tr, s', None)"
    by (simp add: SetBleemeoCredentials_def savePersistent_def write_file_def createTempFile_def no_faults_def
        os_Rename_def example_fs_def example_state_def Let_def)
  have "valid_utf8 ''id''" "valid_utf8 ''pw''" by code_simp+
  with SetBleemeoCredentials_Load [OF s, of "''state.cache.json''"] s show ?thesis
    by (auto simp: example_state_def example_fs_def stateVersion_def)
qed

text \<open>
  C23 (credentials survive a crash). While the credentials of a state on disk are set, whatever system call fails,
  the agent may stop at any moment: the files it leaves load without error, with the old credentials or with the
  new ones. When the operation returns an error, the old ones are on disk.
\<close>

theorem credentials_crash_safe:
  assumes "SetBleemeoCredentials F fs s agentUUID password = (tr, s', err)" "fs' \<in> set (fs # tr)"
    and "Load fs (st_persistentPath s) cachePath = Inr s0"
    and "\<not> st_isInMemory s" "Version (st_persistent s) = stateVersion" "st_persistentPath s \<noteq> []"
    and "cachePath \<noteq> st_persistentPath s" "cachePath \<noteq> st_persistentPath s @ tmpExt"
  shows "(\<exists>s''. Load fs' (st_persistentPath s) cachePath = Inr s'' \<and>
            BleemeoCredentials s'' \<in> {BleemeoCredentials s0, (json_text agentUUID, json_text password)}) \<and>
         (err \<noteq> None \<longrightarrow> Load (fs_after fs tr) (st_persistentPath s) cachePath = Inr s0)"
proof
  let ?path = "st_persistentPath s"
  let ?p = "(st_persistent s)\<lparr>ps_AgentID := agentUUID, ps_Password := password, ps_dirty := True\<rparr>"
  note w = write_file_atomic [OF SetBleemeoCredentials_write [OF assms(1,4)]]
  have other: "map_of (fs_files x) cachePath = map_of (fs_files fs) cachePath" "fs_noopen x = fs_noopen fs"
    if "x \<in> set (fs # tr)" for x
    using w(3) [OF that, of cachePath] w(4) [OF that] assms(7,8) by simp_all
  consider "map_of (fs_files fs') ?path = map_of (fs_files fs) ?path" | "map_of (fs_files fs') ?path = Some (Some (savePersistentTo ?p))"
    using assms(2) w(2) [of fs'] by auto
  then show "\<exists>s''. Load fs' ?path cachePath = Inr s'' \<and>
      BleemeoCredentials s'' \<in> {BleemeoCredentials s0, (json_text agentUUID, json_text password)}"
  proof cases
    case 1
    then show ?thesis using load_cong [OF 1 other [OF assms(2)]] assms(3) by simp
  next
    case 2
    show ?thesis
      using Load_saved [OF 2, of cachePath] assms(5,6) other(2) [OF assms(2)] Load_noopen [OF assms(3,6)] by auto
  qed
  show "err \<noteq> None \<longrightarrow> Load (fs_after fs tr) ?path cachePath = Inr s0"
    using load_cong [OF _ other [OF fs_after_in], of ?path] w(1) assms(3) by (cases err) simp_all
qed

theorem credentials_crash_safe_witness:
  "\<exists>tr s'. SetBleemeoCredentials (no_faults\<lparr>flt_rename := True\<rparr>) example_fs example_state ''id'' ''pw'' = (tr, s', Some IOError) \<and>
     length tr = 3 \<and> (\<forall>fs' \<in> set tr. \<exists>s''. Load fs' ''state.json'' ''state.cache.json'' = Inr s'')"
proof -
  obtain tr s' where s: "SetBleemeoCredentials (no_faults\<lparr>flt_rename := True\<rparr>) example_fs example_state ''id'' ''pw'' = (tr, s', Some IOError)"
    "length tr = 3"
    by (simp add: SetBleemeoCredentials_def savePersistent_def write_file_def createTempFile_def no_faults_def
        os_Rename_def example_fs_def example_state_def Let_def)
  obtain s0 where l: "Load example_fs ''state.json'' ''state.cache.json'' = Inr s0"
    by (simp add: Load_def load_def example_fs_def Let_def)
  have "\<exists>s''. Load fs' ''state.json'' ''state.cache.json'' = Inr s''" if "fs' \<in> set tr" for fs'
    using credentials_crash_safe [OF s(1), of fs' "''state.cache.json''" s0] that l
    by (auto simp: example_state_def stateVersion_def tmpExt_def)
  with s show ?thesis by blast
qed

section \<open>The writer thread\<close>

text \<open>
  The state file and its temporary file are not the cache file.
\<close>

definition paths_ok :: "world \<Rightarrow> bool" where
  "paths_ok w \<longleftrightarrow> st_persistentPath (w_state w) \<noteq> st_cachePath (w_state w) \<and>
     st_persistentPath (w_state w) @ tmpExt \<noteq> st_cachePath (w_state w)"

text \<open>A run starts when a state was loaded: nothing waits and no thread is active; the files are arbitrary.\<close>

definition world_start :: "world \<Rightarrow> bool" where
  "world_start w \<longleftrightarrow> w_writer w = WIdle \<and> w_result w = ResNotRun \<and> \<not> w_saver w \<and> paths_ok w \<and> st_trigger (w_state w) = None"

definition same_place :: "world \<Rightarrow> world \<Rightarrow> bool" where
  "same_place w w' \<longleftrightarrow> st_cachePath (w_state w') = st_cachePath (w_state w) \<and>
     st_persistentPath (w_state w') = st_persistentPath (w_state w) \<and> st_isInMemory (w_state w') = st_isInMemory (w_state w)"

text \<open>
  The runs considered: a \<open>SaveTo\<close> that moves the state to another place succeeds in writing the state file, and
  something else than the agent may remove the cache file at any time.
\<close>

inductive world_reach :: "world \<Rightarrow> world \<Rightarrow> bool" for w0 where
  refl: "world_reach w0 w0"
| step: "world_reach w0 w \<Longrightarrow> world_step w w' \<Longrightarrow> w_saver w' \<or> same_place w w' \<Longrightarrow> paths_ok w' \<Longrightarrow> world_reach w0 w'"
| removed: "world_reach w0 w \<Longrightarrow>
    world_reach w0 (w\<lparr>w_fs := (w_fs w)\<lparr>fs_files := gm_del (st_cachePath (w_state w)) (fs_files (w_fs w))\<rparr>\<rparr>)"

text \<open>What holds when nothing is pending, for a cache that was \<open>c0\<close> at the start.\<close>

definition settled :: "(string, json) gomap \<Rightarrow> world \<Rightarrow> bool" where
  "settled c0 w \<longleftrightarrow>
     (case w_result w of
        ResNotRun \<Rightarrow> st_cache (w_state w) = c0
      | ResWritten \<Rightarrow> cache_file w = None \<or> cache_file w = Some (Some (saveCacheTo (w_state w)))
      | ResNoFile \<Rightarrow> cache_file w = None
      | ResInMemory \<Rightarrow> False
      | ResFailed \<Rightarrow> True)"

definition world_inv :: "(string, json) gomap \<Rightarrow> world \<Rightarrow> bool" where
  "world_inv c0 w \<longleftrightarrow> paths_ok w \<and>
     (\<not> st_isInMemory (w_state w) \<and> \<not> st_closed (w_state w) \<and> st_trigger (w_state w) = None \<and> \<not> w_saver w \<longrightarrow>
        (case w_writer w of
           WIdle \<Rightarrow> settled c0 w
         | WSerialized d p \<Rightarrow> d = saveCacheTo (w_state w) \<and> p = st_cachePath (w_state w)
         | _ \<Rightarrow> True))"

text \<open>The operations that change the cache: nothing changes, or a message is on its way.\<close>

definition cache_op :: "State \<Rightarrow> State \<Rightarrow> bool" where
  "cache_op s s' \<longleftrightarrow>
     st_cachePath s' = st_cachePath s \<and> st_persistentPath s' = st_persistentPath s \<and> st_isInMemory s' = st_isInMemory s \<and>
     st_closed s' = st_closed s \<and>
     (st_cache s' = st_cache s \<and> (st_trigger s' = None \<longrightarrow> st_trigger s = None) \<or>
      st_isInMemory s \<or> st_closed s \<or> st_trigger s' \<noteq> None)"

lemma cache_op_trigger: "cache_op s (saveCacheIfFileNotDeleted (s\<lparr>st_cache := c\<rparr>))"
  by (auto simp: cache_op_def saveCacheIfFileNotDeleted_def triggerCacheWrite_def split: option.splits)

lemma gm_set_same: "map_of m k = Some v \<Longrightarrow> gm_set k v m = m"
  by (induction m) auto

lemma cache_op_ops:
  "cache_op s (fst (state_Set Some s key v))" "cache_op s (state_Delete s key)" "cache_op s (KeepOnlyPersistent s)"
  using cache_op_trigger [of s]
  by (auto simp: state_Set_def state_set_def state_Delete_def KeepOnlyPersistent_def gm_set_same cache_op_def)

lemma world_inv_cache_op:
  assumes "world_inv c0 w" "cache_op (w_state w) s'"
  shows "world_inv c0 (w\<lparr>w_state := s'\<rparr>)"
  using assms unfolding world_inv_def cache_op_def paths_ok_def settled_def saveCacheTo_def
  by (auto split: writer.splits write_result.splits)

text \<open>Saving the identity changes neither the cache nor its file.\<close>

lemma savePersistent_frame:
  assumes "savePersistent F fs s = (tr, s', err)"
  shows "st_cache s' = st_cache s" "st_trigger s' = st_trigger s" "st_cachePath s' = st_cachePath s"
    "st_persistentPath s' = st_persistentPath s" "st_isInMemory s' = st_isInMemory s" "st_closed s' = st_closed s"
    "c \<notin> {st_persistentPath s, st_persistentPath s @ tmpExt} \<Longrightarrow> map_of (fs_files (fs_after fs tr)) c = map_of (fs_files fs) c"
  using assms write_file_atomic(3) [OF _ fs_after_in, of F fs "st_persistentPath s" "savePersistentTo (st_persistent s)" tr _ c]
  by (auto simp: savePersistent_def split: if_splits prod.splits option.splits)

lemma world_inv_identity:
  assumes "world_inv c0 w" "savePersistent F (w_fs w) s = (tr, s', err)"
    and "st_cache s = st_cache (w_state w)" "st_trigger s = st_trigger (w_state w)" "st_cachePath s = st_cachePath (w_state w)"
    and "st_persistentPath s = st_persistentPath (w_state w)" "st_isInMemory s = st_isInMemory (w_state w)"
    and "st_closed s = st_closed (w_state w)"
  shows "world_inv c0 (w\<lparr>w_fs := fs_after (w_fs w) tr, w_state := s'\<rparr>)"
proof -
  note f = savePersistent_frame [OF assms(2)]
  have "map_of (fs_files (fs_after (w_fs w) tr)) (st_cachePath (w_state w)) = cache_file w"
    using f(7) [of "st_cachePath (w_state w)"] assms(1,6) by (auto simp: world_inv_def paths_ok_def)
  then show ?thesis
    using assms(1) unfolding world_inv_def paths_ok_def settled_def saveCacheTo_def
    by (simp add: f(1-6) assms(3-8) cong: writer.case_cong write_result.case_cong)
qed

lemma world_inv_step:
  assumes "world_step w w'" "world_inv c0 w" "w_saver w' \<or> same_place w w'" "paths_ok w'"
  shows "world_inv c0 w'"
  using assms
proof (induction rule: world_step.induct)
  case (set_key w key v)
  then show ?case using world_inv_cache_op cache_op_ops(1) by blast
next
  case (delete_key w key)
  then show ?case using world_inv_cache_op cache_op_ops(2) by blast
next
  case (keep_persistent w)
  then show ?case using world_inv_cache_op cache_op_ops(3) by blast
next
  case (close_state w)
  then show ?case by (simp add: world_inv_def state_Close_def)
next
  case (set_credentials w F a p tr s err)
  then show ?case by (intro world_inv_identity [OF _ set_credentials(2) [unfolded SetBleemeoCredentials_def]]) simp_all
next
  case (telemetry_id w F newID tr s i)
  show ?case
  proof (cases "ps_TelemetryID (st_persistent (w_state w)) = []")
    case True
    let ?s = "(w_state w)\<lparr>st_persistent := (st_persistent (w_state w))\<lparr>ps_TelemetryID := newID, ps_dirty := True\<rparr>\<rparr>"
    obtain err where "savePersistent F (w_fs w) ?s = (tr, s, err)"
      using telemetry_id(2) True
      by (cases "savePersistent F (w_fs w) ?s") (auto simp: state_TelemetryID_def generateTelemetryID_def Let_def)
    then show ?thesis by (rule world_inv_identity [OF telemetry_id(3)]) simp_all
  next
    case False
    then have "tr = []" "s = w_state w" using telemetry_id(2) by (simp_all add: state_TelemetryID_def)
    then show ?thesis using telemetry_id(3) by simp
  qed
next
  case (save_begin w F p c tr s err)
  show ?case
  proof (cases "err = None")
    case True
    then show ?thesis using save_begin by (simp add: world_inv_def)
  next
    case False
    note f = savePersistent_frame [OF save_begin(2) [unfolded SaveTo_files_def]]
    have "\<not> st_isInMemory (w_state w)" "p = st_persistentPath (w_state w)" "c = st_cachePath (w_state w)"
      using save_begin(4) False f(3-5) by (auto simp: same_place_def)
    then have "world_inv c0 (w\<lparr>w_fs := fs_after (w_fs w) tr, w_state := s\<rparr>)"
      by (intro world_inv_identity [OF save_begin(3) save_begin(2) [unfolded SaveTo_files_def]]) simp_all
    moreover have "w\<lparr>w_fs := fs_after (w_fs w) tr, w_state := s, w_saver := err = None\<rparr> = w\<lparr>w_fs := fs_after (w_fs w) tr, w_state := s\<rparr>"
      using False save_begin(1) by (cases w) simp
    ultimately show ?thesis by simp
  qed
next
  case (save_send w s)
  then show ?case by (auto simp: world_inv_def triggerCacheWrite_def paths_ok_def split: if_splits option.splits)
next
  case (write_out w data path F tr err)
  then show ?case
    using write_file_atomic(1) [OF write_out(2)] by (auto simp: world_inv_def settled_def paths_ok_def)
qed (auto simp: world_inv_def settled_def paths_ok_def split: writer.splits)

lemma world_reach_inv:
  assumes "world_reach w0 w" "world_start w0"
  shows "world_inv (st_cache (w_state w0)) w"
  using assms
proof (induction rule: world_reach.induct)
  case refl
  then show ?case by (simp add: world_start_def world_inv_def settled_def)
next
  case (step w w')
  then show ?case using world_inv_step by blast
next
  case (removed w)
  then show ?case
    by (auto simp: world_inv_def settled_def paths_ok_def saveCacheTo_def split: writer.splits write_result.splits)
qed

text \<open>
  C3 (no cache write is lost). Messages to the writer are dropped when one is already waiting. Still, in every run
  from a loaded state, whatever writes fail, and even when something else removes the cache file: when
  the writer is idle and nothing waits, on a state on disk that is not closed, the cache file holds the current
  cache, unless the file does not exist, the last write failed, or nothing was written and the
  cache is the one that was loaded. Runs in which \<open>SaveTo\<close> fails to move the state elsewhere are left out.
\<close>

theorem no_lost_cache_write:
  assumes "world_start w0" "world_reach w0 w"
    and "w_writer w = WIdle" "st_trigger (w_state w) = None" "\<not> w_saver w"
    and "\<not> st_isInMemory (w_state w)" "\<not> st_closed (w_state w)"
  shows "map_of (fs_files (w_fs w)) (st_cachePath (w_state w)) = Some (Some (JObj (st_cache (w_state w)))) \<or>
         map_of (fs_files (w_fs w)) (st_cachePath (w_state w)) = None \<or> w_result w = ResFailed \<or>
         w_result w = ResNotRun \<and> st_cache (w_state w) = st_cache (w_state w0)"
  using world_reach_inv [OF assms(2,1)] assms(3-)
  by (cases "w_result w") (auto simp: world_inv_def settled_def saveCacheTo_def)

definition example_world :: world where
  "example_world = \<lparr>w_state = example_state,
     w_fs = example_fs\<lparr>fs_files := [(''state.cache.json'', Some (JObj []))]\<rparr>,
     w_writer = WIdle, w_result = ResNotRun, w_saver = False\<rparr>"

lemmas example_defs = example_world_def example_state_def example_fs_def

lemma example_received:
  "world_reach example_world
     (example_world\<lparr>w_state := example_state\<lparr>st_cache := [(''k'', JNull)]\<rparr>, w_writer := WReceived True\<rparr>)"
proof -
  let ?s = "example_state\<lparr>st_cache := [(''k'', JNull)]\<rparr>"
  have 1: "world_reach example_world (example_world\<lparr>w_state := ?s\<lparr>st_trigger := Some True\<rparr>\<rparr>)"
    using world_step.set_key [of example_world "''k''" JNull]
    by (intro world_reach.step [OF world_reach.refl])
      (simp_all add: example_defs state_Set_def state_set_def saveCacheIfFileNotDeleted_def triggerCacheWrite_def
        same_place_def paths_ok_def tmpExt_def)
  show ?thesis
    using world_step.receive [of "example_world\<lparr>w_state := ?s\<lparr>st_trigger := Some True\<rparr>\<rparr>" True]
    by (intro world_reach.step [OF 1]) (simp_all add: example_defs same_place_def paths_ok_def tmpExt_def)
qed

lemma example_world_run:
  "world_reach example_world
     (example_world\<lparr>w_state := example_state\<lparr>st_cache := [(''k'', JNull)]\<rparr>, w_result := ResWritten,
        w_fs := example_fs\<lparr>fs_files := [(''state.cache.json'', Some (JObj [(''k'', JNull)]))]\<rparr>\<rparr>)"
proof -
  let ?w = "example_world\<lparr>w_state := example_state\<lparr>st_cache := [(''k'', JNull)]\<rparr>\<rparr>"
  have 1: "world_reach example_world (?w\<lparr>w_writer := WChecked\<rparr>)"
    using world_step.stat_ok [of "?w\<lparr>w_writer := WReceived True\<rparr>" True]
    by (intro world_reach.step [OF example_received]) (simp_all add: example_defs same_place_def paths_ok_def tmpExt_def)
  have 2: "world_reach example_world (?w\<lparr>w_writer := WSerialized (JObj [(''k'', JNull)]) ''state.cache.json''\<rparr>)"
    using world_step.serialize [of "?w\<lparr>w_writer := WChecked\<rparr>"]
    by (intro world_reach.step [OF 1]) (simp_all add: example_defs same_place_def paths_ok_def tmpExt_def saveCacheTo_def)
  let ?c = "JObj [(''k'', JNull)]"
  obtain tr where tr: "write_file no_faults (w_fs example_world) ''state.cache.json'' ?c = (tr, None)"
    "fs_after (w_fs example_world) tr = example_fs\<lparr>fs_files := [(''state.cache.json'', Some ?c)]\<rparr>"
    by (simp add: example_defs write_file_def createTempFile_def os_Rename_def tmpExt_def no_faults_def fs_after_def Let_def)
  show ?thesis
    using world_step.write_out [of "?w\<lparr>w_writer := WSerialized ?c ''state.cache.json''\<rparr>" ?c "''state.cache.json''" no_faults tr None] tr
    by (intro world_reach.step [OF 2]) (simp_all add: example_defs same_place_def paths_ok_def tmpExt_def)
qed

theorem no_lost_cache_write_witness:
  "\<exists>w. world_reach example_world w \<and> st_cache (w_state w) = [(''k'', JNull)] \<and>
     map_of (fs_files (w_fs w)) ''state.cache.json'' = Some (Some (JObj [(''k'', JNull)]))"
proof -
  have "world_start example_world" by (simp add: world_start_def paths_ok_def example_defs tmpExt_def)
  from no_lost_cache_write [OF this example_world_run] example_world_run show ?thesis by (auto simp: example_defs)
qed

text \<open>
  C21 (SaveTo can block for ever). The writer may have received a message while another one waits
  in the channel. If \<open>SaveTo\<close> then takes the lock, it waits for room in the channel with the
  lock held, the writer waits for the lock, and no thread can take a step any more.
\<close>

theorem SaveTo_deadlock:
  "\<exists>w. world_reach example_world w \<and> (\<nexists>w'. world_step w w')"
proof -
  let ?s = "example_state\<lparr>st_cache := [(''k'', JStr [])], st_trigger := Some True\<rparr>"
  let ?w2 = "example_world\<lparr>w_state := example_state\<lparr>st_cache := [(''k'', JNull)]\<rparr>, w_writer := WReceived True\<rparr>"
  let ?w3 = "example_world\<lparr>w_state := ?s, w_writer := WReceived True\<rparr>"
  let ?w4 = "example_world\<lparr>w_state := ?s, w_writer := WChecked\<rparr>"
  let ?w5 = "?w4\<lparr>w_saver := True\<rparr>"
  have 3: "world_reach example_world ?w3"
    using world_step.set_key [of ?w2 "''k''" "JStr []"]
    by (intro world_reach.step [OF example_received])
      (simp_all add: example_defs state_Set_def state_set_def saveCacheIfFileNotDeleted_def triggerCacheWrite_def
        same_place_def paths_ok_def tmpExt_def)
  have 4: "world_reach example_world ?w4"
    using world_step.stat_ok [of ?w3 True]
    by (intro world_reach.step [OF 3]) (simp_all add: example_defs same_place_def paths_ok_def tmpExt_def)
  have 5: "world_reach example_world ?w5"
    using world_step.save_begin [of ?w4 no_faults "''state.json''" "''state.cache.json''" "[]" ?s None]
    by (intro world_reach.step [OF 4])
      (simp_all add: example_defs SaveTo_files_def savePersistent_def zero_persisted_def paths_ok_def tmpExt_def)
  have "\<not> world_step ?w5 w'" for w'
    by (auto elim!: world_stepE simp: example_defs triggerCacheWrite_def)
  with 5 show ?thesis by blast
qed

end
