(* ===== verification/StatusCache.thy ===== *)
theory StatusCache
  imports ThresholdProofs AgentState
begin

text \<open>
  The threshold registry on top of the agent state: the states of the series are saved under the
  key \<^verbatim>\<open>CacheStatusState\<close>. \<open>marshal_states\<close> is what \<^verbatim>\<open>json.Marshal\<close> makes of a list of
  \<^verbatim>\<open>jsonState\<close> (the embedded struct is flattened) and \<open>unmarshal_states\<close> its inverse.
\<close>

fun status_int :: "status \<Rightarrow> rat" where
  "status_int StatusUnset = 0"
| "status_int StatusOk = 1"
| "status_int StatusWarning = 2"
| "status_int StatusCritical = 3"
| "status_int StatusUnknown = 4"

definition int_status :: "rat \<Rightarrow> status option" where
  "int_status n =
     (if n = 0 then Some StatusUnset else if n = 1 then Some StatusOk
      else if n = 2 then Some StatusWarning else if n = 3 then Some StatusCritical
      else if n = 4 then Some StatusUnknown else None)"

text \<open>
  Encoding a time fails outside of the years 0 to 9999, encoding a float64 fails for NaN and
  the infinities.
\<close>

definition marshal_time :: "gotime \<Rightarrow> json option" where
  "marshal_time t = (if 0 \<le> t \<and> t < 315537897600 * second then Some (JTime t) else None)"

fun marshal_float :: "float64 \<Rightarrow> json option" where
  "marshal_float (FFin x) = Some (JNum x)"
| "marshal_float _ = None"

definition marshal_jsonState :: "jsonState \<Rightarrow> json option" where
  "marshal_jsonState v =
     (case (marshal_time (CriticalSince (js_statusState v)), marshal_time (WarningSince (js_statusState v)),
            marshal_time (LastUpdate (js_statusState v)), marshal_float (LastValue (js_statusState v))) of
        (Some c, Some w, Some u, Some x) \<Rightarrow>
          Some (JObj [(''CurrentStatus'', JNum (status_int (CurrentStatus (js_statusState v)))),
                      (''CriticalSince'', c), (''WarningSince'', w), (''LastUpdate'', u),
                      (''LastValue'', x), (''LabelsText'', JStr (json_text (js_LabelsText v)))])
      | _ \<Rightarrow> None)"

fun marshal_all :: "('a \<Rightarrow> json option) \<Rightarrow> 'a list \<Rightarrow> json list option" where
  "marshal_all f [] = Some []"
| "marshal_all f (x # xs) =
     (case (f x, marshal_all f xs) of (Some y, Some ys) \<Rightarrow> Some (y # ys) | _ \<Rightarrow> None)"

definition marshal_states :: "jsonState list \<Rightarrow> json option" where
  "marshal_states l = map_option JArr (marshal_all marshal_jsonState l)"

text \<open>
  Decoding a field: a missing field and \<^verbatim>\<open>null\<close> keep the zero value, a value of another type is an error. A number
  that is no status of the program is taken as an error as well.
\<close>

fun dec_status :: "json option \<Rightarrow> status option" where
  "dec_status (Some (JNum n)) = int_status n"
| "dec_status (Some JNull) = Some StatusUnset"
| "dec_status None = Some StatusUnset"
| "dec_status _ = None"

fun dec_time :: "json option \<Rightarrow> gotime option" where
  "dec_time (Some (JTime t)) = Some t"
| "dec_time (Some JNull) = Some zero_time"
| "dec_time None = Some zero_time"
| "dec_time _ = None"

fun dec_float :: "json option \<Rightarrow> float64 option" where
  "dec_float (Some (JNum x)) = Some (FFin x)"
| "dec_float (Some JNull) = Some (FFin 0)"
| "dec_float None = Some (FFin 0)"
| "dec_float _ = None"

fun unmarshal_jsonState :: "json \<Rightarrow> jsonState option" where
  "unmarshal_jsonState (JObj o') =
     (case (dec_status (map_of o' ''CurrentStatus''), dec_time (map_of o' ''CriticalSince''), dec_time (map_of o' ''WarningSince''),
            dec_time (map_of o' ''LastUpdate''), dec_float (map_of o' ''LastValue''), dec_string (map_of o' ''LabelsText'') []) of
        (Some st, Some c, Some w, Some u, Some x, Some t) \<Rightarrow>
          Some \<lparr>js_statusState = \<lparr>CurrentStatus = st, CriticalSince = c, WarningSince = w, LastUpdate = u, LastValue = x\<rparr>,
                js_LabelsText = t\<rparr>
      | _ \<Rightarrow> None)"
| "unmarshal_jsonState JNull =
     Some \<lparr>js_statusState = \<lparr>CurrentStatus = StatusUnset, CriticalSince = zero_time, WarningSince = zero_time,
             LastUpdate = zero_time, LastValue = FFin 0\<rparr>, js_LabelsText = []\<rparr>"
| "unmarshal_jsonState _ = None"

fun unmarshal_all :: "json list \<Rightarrow> jsonState list option" where
  "unmarshal_all [] = Some []"
| "unmarshal_all (x # xs) =
     (case (unmarshal_jsonState x, unmarshal_all xs) of (Some y, Some ys) \<Rightarrow> Some (y # ys) | _ \<Rightarrow> None)"

fun unmarshal_states :: "json \<Rightarrow> jsonState list option" where
  "unmarshal_states (JArr l) = unmarshal_all l"
| "unmarshal_states JNull = Some []"
| "unmarshal_states _ = None"

definition statusCacheKey :: string where
  "statusCacheKey = ''CacheStatusState''"

definition cache_set :: "State \<Rightarrow> jsonState list \<Rightarrow> State" where
  "cache_set s l = fst (state_Set marshal_states s statusCacheKey l)"

definition cache_get :: "State \<Rightarrow> jsonState list option" where
  "cache_get s =
     (case state_Get unmarshal_states s statusCacheKey [] of Inl e \<Rightarrow> None | Inr l \<Rightarrow> Some l)"

lemma int_status_int [simp]: "int_status (status_int st) = Some st"
  by (cases st) (simp_all add: int_status_def)

lemma unmarshal_marshal_jsonState:
  "marshal_jsonState v = Some j \<Longrightarrow> valid_utf8 (js_LabelsText v) \<Longrightarrow> unmarshal_jsonState j = Some v"
  by (cases "LastValue (js_statusState v)")
    (auto simp: marshal_jsonState_def marshal_time_def json_text_valid split: if_splits)

lemma unmarshal_marshal_all:
  "marshal_all marshal_jsonState l = Some js \<Longrightarrow> \<forall>v \<in> set l. valid_utf8 (js_LabelsText v) \<Longrightarrow> unmarshal_all js = Some l"
  by (induction l arbitrary: js) (auto simp: unmarshal_marshal_jsonState split: option.splits)

lemma marshal_all_None: "marshal_all f l = None \<longleftrightarrow> (\<exists>x \<in> set l. f x = None)"
  by (induction l) (auto split: option.splits)

lemma marshal_infinite: "LastValue (js_statusState v) = FPosInf \<Longrightarrow> marshal_jsonState v = None"
  by (simp add: marshal_jsonState_def split: option.splits)

lemma state_Set_cache:
  "st_cache (fst (state_Set marshal s key x)) =
     (case marshal x of None \<Rightarrow> st_cache s | Some b \<Rightarrow> gm_set key b (st_cache s))"
  by (auto simp: state_Set_def state_set_def saveCacheIfFileNotDeleted_def triggerCacheWrite_def
      split: option.splits)

text \<open>The lists that come back as they were saved.\<close>

definition storable_states :: "jsonState list \<Rightarrow> bool" where
  "storable_states l \<longleftrightarrow> marshal_states l \<noteq> None \<and> (\<forall>v \<in> set l. valid_utf8 (js_LabelsText v))"

interpretation agent_cache: status_cache cache_set cache_get storable_states
proof
  fix l s
  assume l: "storable_states l"
  then obtain js where "marshal_all marshal_jsonState l = Some js" by (auto simp: storable_states_def marshal_states_def)
  with l show "cache_get (cache_set s l) = Some l"
    by (simp add: cache_get_def cache_set_def state_Get_def state_Set_cache marshal_states_def
        unmarshal_marshal_all storable_states_def)
qed

text \<open>
  C25 (the states survive a restart when the last round saw the end). When the last round of \<open>Run\<close> is one whose select
  took the end of the context, and the states can be encoded with label texts in UTF-8, a registry created from the agent state has
  exactly the states the old one ended with, whatever other goroutines did between the rounds. When the guard of the
  loop is the first to see the end, and no round had to save since an hour had passed, nothing is saved.
\<close>

theorem threshold_restart:
  assumes "gm_wf (reg_states r)" "\<forall>rd \<in> set rounds. \<not> rd_ctxErr rd \<and> others_ok rd" "rd_ctxErr final"
    and "threshold_Run cache_set lastSave (r, s) (rounds @ [final]) = (r', s')"
    and "storable_states (getAsJSONList r')"
  shows "(rounds \<noteq> [] \<and> rd_done (last rounds) \<longrightarrow> map_of (reg_states (New (cache_get s'))) = map_of (reg_states r')) \<and>
         ((\<forall>rd \<in> set rounds. \<not> rd_done rd \<and> time_sub (rd_now rd) lastSave \<le> 60 * (60 * second)) \<longrightarrow> s' = s)"
  using agent_cache.Run_restores [OF assms(1,2) _ _ assms(4,3,5)] Run_without_save [OF _ assms(3), of rounds lastSave cache_set "(r, s)"] assms(4)
  by auto

definition demo_round :: "bool \<Rightarrow> bool \<Rightarrow> gotime \<Rightarrow> run_round" where
  "demo_round e d t = \<lparr>rd_ctxErr = e, rd_others = \<lambda>r. r, rd_done = d, rd_now = t\<rparr>"

definition demo_registry :: Registry where
  "demo_registry = (New None)\<lparr>reg_states := [(''a'', zero_state)]\<rparr>"

text \<open>The same registry at the end of a run that saw the end of the context in the select, and in the guard.\<close>

theorem threshold_restart_witness:
  "(\<exists>r' s'. threshold_Run cache_set 0 (demo_registry, example_state)
       ([demo_round False False 5, demo_round False True 7] @ [demo_round True False 7]) = (r', s') \<and>
     map_of (reg_states (New (cache_get s'))) ''a'' = Some zero_state) \<and>
   snd (threshold_Run cache_set 0 (demo_registry, example_state) ([demo_round False False 5] @ [demo_round True False 7])) = example_state"
proof -
  have ok: "\<forall>rd \<in> set [demo_round False False 5, demo_round False True 7]. \<not> rd_ctxErr rd \<and> others_ok rd"
    "\<forall>rd \<in> set [demo_round False False 5]. \<not> rd_ctxErr rd \<and> others_ok rd"
    by (simp_all add: demo_round_def others_ok_def)
  have wf: "gm_wf (reg_states demo_registry)" and fin: "rd_ctxErr (demo_round True False 7)"
    by (simp_all add: demo_registry_def demo_round_def)
  have states: "reg_states (fst (threshold_Run cache_set 0 (demo_registry, example_state) rounds)) = [(''a'', zero_state)]"
    if "rounds \<in> {[demo_round False False 5, demo_round False True 7] @ [demo_round True False 7], [demo_round False False 5] @ [demo_round True False 7]}" for rounds
    using that by (auto simp: demo_round_def demo_registry_def threshold_run_def Let_def cleanExpired_def zero_state_def time_sub_def)
  have "valid_utf8 ''a''" by code_simp
  then have enc: "storable_states (getAsJSONList r)" if "reg_states r = [(''a'', zero_state)]" for r
    by (simp add: getAsJSONList_def that storable_states_def marshal_states_def marshal_jsonState_def zero_state_def marshal_time_def)
  let ?x = "[demo_round False False 5, demo_round False True 7]" and ?y = "[demo_round False False 5]"
  obtain r1 s1 where 1: "threshold_Run cache_set 0 (demo_registry, example_state) (?x @ [demo_round True False 7]) = (r1, s1)" by fastforce
  obtain r2 s2 where 2: "threshold_Run cache_set 0 (demo_registry, example_state) (?y @ [demo_round True False 7]) = (r2, s2)" by fastforce
  have st: "reg_states r1 = [(''a'', zero_state)]" "reg_states r2 = [(''a'', zero_state)]" using states 1 2 by force+
  have "map_of (reg_states (New (cache_get s1))) ''a'' = Some zero_state"
    using threshold_restart [OF wf ok(1) fin 1 enc [OF st(1)]] st(1) by (auto simp: demo_round_def)
  moreover have "s2 = example_state"
    using threshold_restart [OF wf ok(2) fin 2 enc [OF st(2)]] by (auto simp: demo_round_def time_sub_def)
  ultimately show ?thesis using 1 2 by (auto simp del: append.simps)
qed

text \<open>
  One infinite value stops the saving of every state. If the last value of one series is
  infinite, saving the states fails for all of them and the cache keeps its old content.
\<close>

theorem infinite_value_not_saved:
  assumes "(k, st) \<in> set (reg_states (cleanExpired r now))" "LastValue st = FPosInf"
  shows "snd (threshold_run cache_set (r, s) True now) = s"
proof -
  have "marshal_all marshal_jsonState l = None"
    if "\<exists>v \<in> set l. LastValue (js_statusState v) = FPosInf" for l
    unfolding marshal_all_None using that marshal_infinite by blast
  moreover have "\<exists>v \<in> set (getAsJSONList (cleanExpired r now)). LastValue (js_statusState v) = FPosInf"
    using assms by (force simp: getAsJSONList_def)
  ultimately show ?thesis
    by (simp add: threshold_run_def Let_def cache_set_def state_Set_def state_set_def marshal_states_def)
qed

theorem infinite_value_not_saved_witness:
  "snd (threshold_run cache_set ((New None)\<lparr>reg_states := [(''a'', zero_state\<lparr>LastValue := FPosInf\<rparr>),
      (''b'', zero_state)]\<rparr>, example_state) True 7) = example_state"
  by (rule infinite_value_not_saved [of "''a''" "zero_state\<lparr>LastValue := FPosInf\<rparr>"])
    (simp_all add: cleanExpired_def zero_state_def time_sub_def)

end
