(* ===== verification/Store.thy ===== *)
theory Store
  imports Types
begin

text \<open>
  The in-memory store of recent points (\<^verbatim>\<open>store/store.go\<close>, \<^verbatim>\<open>store/encoded_points.go\<close>).
  Metrics are keyed by the hash of their labels and their points are kept in one compressed
  chunk per metric. The hash of a label set and the chunk are library code: \<open>hash\<close> and the
  record \<open>chunkenc\<close> are arguments of the operations. Callbacks are opaque values, and the calls
  made on them are part of the result. Times are kept in milliseconds in a chunk.
\<close>

section \<open>Chunks\<close>

text \<open>
  The operations of \<^verbatim>\<open>chunkenc.XORChunk\<close> the store uses: an empty chunk, appending a sample
  (milliseconds and value), the samples an iterator yields and their number.
\<close>

record 'c chunkenc =
  ck_New :: 'c
  ck_Append :: "'c \<Rightarrow> int \<Rightarrow> float64 \<Rightarrow> 'c"
  ck_Samples :: "'c \<Rightarrow> (int \<times> float64) list"
  ck_NumSamples :: "'c \<Rightarrow> int"

text \<open>
  What the store relies on: a chunk yields the samples appended to it, in order. A chunk counts
  its samples with 16 bits, so this holds as long as there are fewer than \<open>2 ^ 16\<close> of them.
\<close>

definition chunk_ok :: "'c chunkenc \<Rightarrow> bool" where
  "chunk_ok E \<longleftrightarrow>
     ck_Samples E (ck_New E) = [] \<and>
     (\<forall>c. ck_NumSamples E c = int (length (ck_Samples E c))) \<and>
     (\<forall>c t v. length (ck_Samples E c) < 65535 \<longrightarrow>
        ck_Samples E (ck_Append E c t v) = ck_Samples E c @ [(t, v)])"

section \<open>Encoded points\<close>

record 'c pointsData =
  pd_chunk :: 'c
  pd_oldest :: gotime
  pd_youngest :: gotime

type_synonym 'c encodedPoints = "(int, 'c pointsData) gomap"

definition sample_point :: "int \<times> float64 \<Rightarrow> Point" where
  "sample_point s = \<lparr>pt_Time = time_of_unix_milli (fst s), pt_Value = snd s\<rparr>"

definition zero_point :: Point where
  "zero_point = \<lparr>pt_Time = zero_time, pt_Value = FFin 0\<rparr>"

definition points_count :: "'c chunkenc \<Rightarrow> 'c encodedPoints \<Rightarrow> int \<Rightarrow> int" where
  "points_count E epts metricID =
     (case map_of epts metricID of Some d \<Rightarrow> ck_NumSamples E (pd_chunk d) | None \<Rightarrow> 0)"

definition getPoint :: "'c chunkenc \<Rightarrow> 'c encodedPoints \<Rightarrow> int \<Rightarrow> int \<Rightarrow> Point" where
  "getPoint E epts metricID idx =
     (case map_of epts metricID of
        None \<Rightarrow> zero_point
      | Some d \<Rightarrow>
          let samples = ck_Samples E (pd_chunk d)
          in if 0 \<le> idx \<and> idx < int (length samples) then sample_point (samples ! nat idx)
             else zero_point)"

definition getPoints :: "'c chunkenc \<Rightarrow> 'c encodedPoints \<Rightarrow> int \<Rightarrow> Point list" where
  "getPoints E epts metricID =
     (case map_of epts metricID of
        None \<Rightarrow> [] | Some d \<Rightarrow> map sample_point (ck_Samples E (pd_chunk d)))"

text \<open>One appended point: the chunk and the time bounds.\<close>

definition append_point :: "'c chunkenc \<Rightarrow> Point \<Rightarrow> 'c pointsData \<Rightarrow> 'c pointsData" where
  "append_point E p d =
     d\<lparr>pd_chunk := ck_Append E (pd_chunk d) (unix_milli (pt_Time p)) (pt_Value p),
       pd_oldest := (if pd_oldest d = zero_time \<or> pt_Time p < pd_oldest d then pt_Time p else pd_oldest d),
       pd_youngest := (if pd_youngest d = zero_time \<or> pd_youngest d < pt_Time p then pt_Time p
                       else pd_youngest d)\<rparr>"

definition empty_pointsData :: "'c chunkenc \<Rightarrow> 'c pointsData" where
  "empty_pointsData E = \<lparr>pd_chunk = ck_New E, pd_oldest = zero_time, pd_youngest = zero_time\<rparr>"

definition pushPoint :: "'c chunkenc \<Rightarrow> 'c encodedPoints \<Rightarrow> int \<Rightarrow> Point \<Rightarrow> 'c encodedPoints" where
  "pushPoint E epts metricID point =
     gm_set metricID
       (append_point E point
          (case map_of epts metricID of Some d \<Rightarrow> d | None \<Rightarrow> empty_pointsData E)) epts"

definition dropPoints :: "'c encodedPoints \<Rightarrow> int \<Rightarrow> 'c encodedPoints" where
  "dropPoints epts metricID = gm_del metricID epts"

definition setPoints :: "'c chunkenc \<Rightarrow> 'c encodedPoints \<Rightarrow> int \<Rightarrow> Point list \<Rightarrow> 'c encodedPoints" where
  "setPoints E epts metricID points =
     (let epts = dropPoints epts metricID
      in if points = [] then epts
         else gm_set metricID (fold (append_point E) points (empty_pointsData E)) epts)"

section \<open>The store\<close>

record metric =
  m_labels :: labels
  m_annotations :: MetricAnnotations
  m_metricID :: int
  m_createAt :: gotime
  m_lastPoint :: gotime

record ('c, 'f) Store =
  s_metrics :: "(int, metric) gomap"
  s_points :: "'c encodedPoints"
  s_notifyCallbacks :: "(int, 'f) gomap"
  s_newMetricCallback :: "'f option"
  s_maxPointsAge :: duration
  s_maxMetricsAge :: duration
  s_lastAnnotationChange :: gotime

definition store_New :: "duration \<Rightarrow> duration \<Rightarrow> ('c, 'f) Store" where
  "store_New maxPointsAge maxMetricsAge =
     \<lparr>s_metrics = [], s_points = [], s_notifyCallbacks = [], s_newMetricCallback = None,
      s_maxPointsAge = maxPointsAge, s_maxMetricsAge = maxMetricsAge,
      s_lastAnnotationChange = zero_time\<rparr>"

text \<open>The search for a free slot of \<open>AddNotifiee\<close>; identifiers are far from the range of an int.\<close>

function free_slot :: "(int, 'f) gomap \<Rightarrow> int \<Rightarrow> int" where
  "free_slot callbacks slot = (if gm_mem slot callbacks then free_slot callbacks (slot + 1) else slot)"
  by pat_completeness auto
termination
proof (relation "measure (\<lambda>(m, slot). card {k \<in> fst ` set m. slot \<le> k})", goal_cases)
  case (2 callbacks slot)
  then have "slot \<in> {k \<in> fst ` set callbacks. slot \<le> k}" by (simp add: gm_mem_iff)
  moreover have "{k \<in> fst ` set callbacks. slot + 1 \<le> k} \<subseteq> {k \<in> fst ` set callbacks. slot \<le> k} - {slot}"
    by auto
  ultimately have "{k \<in> fst ` set callbacks. slot + 1 \<le> k} \<subset> {k \<in> fst ` set callbacks. slot \<le> k}"
    by blast
  then show ?case by (simp add: psubset_card_mono)
qed simp

declare free_slot.simps [simp del]

definition AddNotifiee :: "('c, 'f) Store \<Rightarrow> 'f \<Rightarrow> ('c, 'f) Store \<times> int" where
  "AddNotifiee s cb =
     (let slot = free_slot (s_notifyCallbacks s) 1
      in (s\<lparr>s_notifyCallbacks := gm_set slot cb (s_notifyCallbacks s)\<rparr>, slot))"

definition RemoveNotifiee :: "('c, 'f) Store \<Rightarrow> int \<Rightarrow> ('c, 'f) Store" where
  "RemoveNotifiee s slot = s\<lparr>s_notifyCallbacks := gm_del slot (s_notifyCallbacks s)\<rparr>"

definition SetNewMetricCallback :: "('c, 'f) Store \<Rightarrow> 'f \<Rightarrow> ('c, 'f) Store" where
  "SetNewMetricCallback s fc = s\<lparr>s_newMetricCallback := Some fc\<rparr>"

definition DropMetrics :: "('c, 'f) Store \<Rightarrow> labels list \<Rightarrow> ('c, 'f) Store" where
  "DropMetrics s labelsList =
     (let dropped = map fst (filter (\<lambda>(i, m). \<exists>l \<in> set labelsList. labels_equal (m_labels m) l) (s_metrics s))
      in s\<lparr>s_metrics := filter (\<lambda>(i, m). \<not> (\<exists>l \<in> set labelsList. labels_equal (m_labels m) l)) (s_metrics s),
           s_points := fold (\<lambda>i epts. dropPoints epts i) dropped (s_points s)\<rparr>)"

definition DropAllMetrics :: "('c, 'f) Store \<Rightarrow> ('c, 'f) Store" where
  "DropAllMetrics s = s\<lparr>s_metrics := [], s_points := []\<rparr>"

definition labelsMatch :: "labels \<Rightarrow> labels \<Rightarrow> bool \<Rightarrow> bool" where
  "labelsMatch lbls flt exact =
     (if exact \<and> length lbls \<noteq> length flt then False
      else (\<forall>(k, v) \<in> set flt. map_of lbls k = Some v))"

definition Metrics :: "('c, 'f) Store \<Rightarrow> labels \<Rightarrow> metric list" where
  "Metrics s filters = filter (\<lambda>m. labelsMatch (m_labels m) filters False) (map snd (s_metrics s))"

definition MetricsCount :: "('c, 'f) Store \<Rightarrow> nat" where
  "MetricsCount s = length (s_metrics s)"

text \<open>\<open>Points\<close> of a metric: \<open>None\<close> is \<^verbatim>\<open>errDeletedMetric\<close>, when the store has another one or none.\<close>

definition metric_Points ::
  "'c chunkenc \<Rightarrow> ('c, 'f) Store \<Rightarrow> metric \<Rightarrow> gotime \<Rightarrow> gotime \<Rightarrow> Point list option" where
  "metric_Points E s m start stop =
     (if (case map_of (s_metrics s) (m_metricID m) of None \<Rightarrow> zero_time | Some m' \<Rightarrow> m_createAt m')
          \<noteq> m_createAt m
      then None
      else Some (filter (\<lambda>p. \<not> pt_Time p < time_truncate start 1000000 \<and> \<not> stop < pt_Time p)
                   (getPoints E (s_points s) (m_metricID m))))"

text \<open>
  \<open>run\<close>: the points that are too old go, and a metric with no point left and no point for too
  long goes as well. The loop collects what to delete and deletes after the loop.
\<close>

definition young_points :: "'c chunkenc \<Rightarrow> ('c, 'f) Store \<Rightarrow> gotime \<Rightarrow> int \<Rightarrow> Point list" where
  "young_points E s now metricID =
     filter (\<lambda>p. time_sub now (pt_Time p) < s_maxPointsAge s) (getPoints E (s_points s) metricID)"

definition to_delete :: "'c chunkenc \<Rightarrow> ('c, 'f) Store \<Rightarrow> gotime \<Rightarrow> int \<times> metric \<Rightarrow> bool" where
  "to_delete E s now im =
     (young_points E s now (fst im) = [] \<and>
      s_maxMetricsAge s \<le> time_sub now (m_lastPoint (snd im)))"

definition store_run :: "'c chunkenc \<Rightarrow> ('c, 'f) Store \<Rightarrow> gotime \<Rightarrow> ('c, 'f) Store" where
  "store_run E s now =
     (let epts = fold (\<lambda>im epts. if to_delete E s now im then epts
                                 else setPoints E epts (fst im) (young_points E s now (fst im)))
                   (s_metrics s) (s_points s);
          metricToDelete = map fst (filter (to_delete E s now) (s_metrics s))
      in s\<lparr>s_metrics := fold gm_del metricToDelete (s_metrics s),
           s_points := fold (\<lambda>i epts. dropPoints epts i) metricToDelete epts\<rparr>)"

section \<open>Pushing points\<close>

text \<open>\<open>metricGet\<close> returns the store, the metric, whether it exists and whether annotations changed.\<close>

definition metricGet ::
  "(labels \<Rightarrow> int) \<Rightarrow> ('c, 'f) Store \<Rightarrow> gotime \<Rightarrow> labels \<Rightarrow> MetricAnnotations
     \<Rightarrow> ('c, 'f) Store \<times> metric \<times> bool \<times> bool" where
  "metricGet hash s now lbls annotations =
     (let h = hash lbls in
      case map_of (s_metrics s) h of
        Some m \<Rightarrow>
          let changed = annotations_Changed (m_annotations m) annotations;
              m = m\<lparr>m_annotations := annotations\<rparr>
          in (s\<lparr>s_metrics := gm_set h m (s_metrics s)\<rparr>, m, True, changed)
      | None \<Rightarrow>
          (s, \<lparr>m_labels = lbls, m_annotations = annotations, m_metricID = h, m_createAt = now,
               m_lastPoint = zero_time\<rparr>, False, True))"

text \<open>
  One point of \<open>PushPoints\<close>, with the reading of the clock for it. The result says whether the
  point is kept in \<open>dedupPoints\<close> and whether its metric is new.
\<close>

definition push_one ::
  "'c chunkenc \<Rightarrow> (labels \<Rightarrow> int) \<Rightarrow> gotime \<Rightarrow> MetricPoint \<Rightarrow> ('c, 'f) Store
     \<Rightarrow> ('c, 'f) Store \<times> bool \<times> bool" where
  "push_one E hash now point s =
     (let (s, m, found, changed) = metricGet hash s now (mp_Labels point) (mp_Annotations point);
          count = points_count E (s_points s) (m_metricID m)
      in if 0 < count \<and>
            pt_Time (getPoint E (s_points s) (m_metricID m) (count - 1)) = pt_Time (mp_Point point)
         then (s, False, False)
         else if pt_Value (mp_Point point) = StaleNaN
         then (s\<lparr>s_metrics := gm_del (m_metricID m) (s_metrics s),
                 s_points := dropPoints (s_points s) (m_metricID m)\<rparr>, False, False)
         else
           let s = (if found \<and> changed then s\<lparr>s_lastAnnotationChange := now\<rparr> else s)
           in (s\<lparr>s_metrics := gm_set (m_metricID m) (m\<lparr>m_lastPoint := now\<rparr>) (s_metrics s),
                 s_points := pushPoint E (s_points s) (m_metricID m) (mp_Point point)\<rparr>,
               True, \<not> found))"

fun push_loop ::
  "'c chunkenc \<Rightarrow> (labels \<Rightarrow> int) \<Rightarrow> (nat \<Rightarrow> gotime) \<Rightarrow> nat \<Rightarrow> MetricPoint list \<Rightarrow> ('c, 'f) Store
     \<Rightarrow> ('c, 'f) Store \<times> MetricPoint list \<times> LabelsAndAnnotation list" where
  "push_loop E hash clock i [] s = (s, [], [])"
| "push_loop E hash clock i (point # points) s =
     (let (s, kept, isNew) = push_one E hash (clock i) point s;
          (s, dedupPoints, newMetrics) = push_loop E hash clock (Suc i) points s
      in (s, if kept then point # dedupPoints else dedupPoints,
          if isNew then \<lparr>la_Labels = mp_Labels point, la_Annotations = mp_Annotations point\<rparr> # newMetrics
          else newMetrics))"

datatype 'f store_call = NewMetricCall 'f "LabelsAndAnnotation list" | NotifyCall 'f "MetricPoint list"

definition PushPoints ::
  "'c chunkenc \<Rightarrow> (labels \<Rightarrow> int) \<Rightarrow> (nat \<Rightarrow> gotime) \<Rightarrow> MetricPoint list \<Rightarrow> ('c, 'f) Store
     \<Rightarrow> ('c, 'f) Store \<times> 'f store_call list" where
  "PushPoints E hash clock points s =
     (let (s, dedupPoints, newMetrics) = push_loop E hash clock 0 points s
      in (s, (case s_newMetricCallback s of
                Some cb \<Rightarrow> if newMetrics \<noteq> [] then [NewMetricCall cb newMetrics] else []
              | None \<Rightarrow> [])
             @ map (\<lambda>(slot, cb). NotifyCall cb dedupPoints) (s_notifyCallbacks s)))"

section \<open>The filtered store\<close>

text \<open>
  The filters of a \<open>FilteredStore\<close> are functions of the agent, so arguments. A callback added
  through it is wrapped: \<open>WithFilter\<close> stands for the closure that filters the points first.
\<close>

datatype 'f wrapped = Plain 'f | WithFilter 'f

definition FilteredStore_PushPoints ::
  "'c chunkenc \<Rightarrow> (labels \<Rightarrow> int) \<Rightarrow> (MetricPoint list \<Rightarrow> MetricPoint list) option \<Rightarrow> (nat \<Rightarrow> gotime)
     \<Rightarrow> MetricPoint list \<Rightarrow> ('c, 'f) Store \<Rightarrow> ('c, 'f) Store \<times> 'f store_call list" where
  "FilteredStore_PushPoints E hash filterCallback clock points s =
     (let points = (case filterCallback of
                      Some f \<Rightarrow> if points \<noteq> [] then f points else points | None \<Rightarrow> points)
      in PushPoints E hash clock points s)"

definition FilteredStore_Metrics ::
  "(metric list \<Rightarrow> metric list) \<Rightarrow> ('c, 'f) Store \<Rightarrow> labels \<Rightarrow> metric list" where
  "FilteredStore_Metrics filterMetricCallback s filters = filterMetricCallback (Metrics s filters)"

definition FilteredStore_MetricsCount :: "(metric list \<Rightarrow> metric list) \<Rightarrow> ('c, 'f) Store \<Rightarrow> nat" where
  "FilteredStore_MetricsCount filterMetricCallback s =
     length (FilteredStore_Metrics filterMetricCallback s [])"

definition FilteredStore_AddNotifiee ::
  "('c, 'f wrapped) Store \<Rightarrow> 'f \<Rightarrow> ('c, 'f wrapped) Store \<times> int" where
  "FilteredStore_AddNotifiee s fc = AddNotifiee s (WithFilter fc)"

text \<open>What the owner of a callback receives when the store calls it.\<close>

fun wrapped_points ::
  "(MetricPoint list \<Rightarrow> MetricPoint list) \<Rightarrow> 'f wrapped \<Rightarrow> MetricPoint list \<Rightarrow> 'f \<times> MetricPoint list" where
  "wrapped_points filterCallback (Plain fc) mp = (fc, mp)"
| "wrapped_points filterCallback (WithFilter fc) mp = (fc, filterCallback mp)"

end
