(* ===== verification/StoreProofs.thy ===== *)
theory StoreProofs
  imports Store
begin

text \<open>
  Correctness of the store: what pushing points and purging do to the series, the invariant of
  the tables, and the listeners.
\<close>

section \<open>The series of a store\<close>

text \<open>The abstract view: for a hash, the labels, annotations and points of its metric.\<close>

definition series ::
  "'c chunkenc \<Rightarrow> ('c, 'f) Store \<Rightarrow> int \<Rightarrow> (labels \<times> MetricAnnotations \<times> Point list) option" where
  "series E s h =
     map_option (\<lambda>m. (m_labels m, m_annotations m, getPoints E (s_points s) h)) (map_of (s_metrics s) h)"

definition store_inv :: "(labels \<Rightarrow> int) \<Rightarrow> ('c, 'f) Store \<Rightarrow> bool" where
  "store_inv hash s \<longleftrightarrow>
     gm_wf (s_metrics s) \<and> gm_wf (s_points s) \<and>
     (\<forall>h m. map_of (s_metrics s) h = Some m \<longrightarrow> m_metricID m = h \<and> hash (m_labels m) = h) \<and>
     (\<forall>h. map_of (s_metrics s) h = None \<longrightarrow> map_of (s_points s) h = None)"

text \<open>A point as a chunk keeps it, with its time rounded down to the millisecond.\<close>

definition ms_point :: "Point \<Rightarrow> Point" where
  "ms_point p = \<lparr>pt_Time = time_of_unix_milli (unix_milli (pt_Time p)), pt_Value = pt_Value p\<rparr>"

text \<open>What one pushed point does to its series.\<close>

fun push_series ::
  "MetricPoint \<Rightarrow> (labels \<times> MetricAnnotations \<times> Point list) option
     \<Rightarrow> (labels \<times> MetricAnnotations \<times> Point list) option" where
  "push_series p None =
     (if pt_Value (mp_Point p) = StaleNaN then None
      else Some (mp_Labels p, mp_Annotations p, [ms_point (mp_Point p)]))"
| "push_series p (Some (l, a, ps)) =
     (if ps \<noteq> [] \<and> pt_Time (last ps) = pt_Time (mp_Point p) then Some (l, mp_Annotations p, ps)
      else if pt_Value (mp_Point p) = StaleNaN then None
      else Some (l, mp_Annotations p, ps @ [ms_point (mp_Point p)]))"

lemma append_point_samples:
  assumes "chunk_ok E" "length (ck_Samples E (pd_chunk d)) < 65535"
  shows "map sample_point (ck_Samples E (pd_chunk (append_point E p d))) =
           map sample_point (ck_Samples E (pd_chunk d)) @ [ms_point p]"
  using assms by (simp add: chunk_ok_def append_point_def sample_point_def ms_point_def)

lemma getPoints_pushPoint:
  assumes "chunk_ok E" "length (getPoints E epts h) < 65535"
  shows "getPoints E (pushPoint E epts h p) h' =
           (if h' = h then getPoints E epts h @ [ms_point p] else getPoints E epts h')"
  using assms append_point_samples [OF assms(1)]
  by (auto simp: getPoints_def pushPoint_def empty_pointsData_def chunk_ok_def split: option.splits)

lemma getPoints_dropPoints [simp]:
  "getPoints E (dropPoints epts h) h' = (if h' = h then [] else getPoints E epts h')"
  by (simp add: getPoints_def dropPoints_def)

lemma points_count_getPoints: "chunk_ok E \<Longrightarrow> points_count E epts h = int (length (getPoints E epts h))"
  by (simp add: points_count_def getPoints_def chunk_ok_def split: option.splits)

lemma getPoint_last:
  "getPoints E epts h \<noteq> [] \<Longrightarrow>
     getPoint E epts h (int (length (getPoints E epts h)) - 1) = last (getPoints E epts h)"
  by (auto simp: getPoint_def getPoints_def last_map last_conv_nth Let_def nat_diff_distrib'
      split: option.splits)

text \<open>The metric \<open>metricGet\<close> returns, and whether the point repeats the time of the last one.\<close>

definition got_metric :: "(labels \<Rightarrow> int) \<Rightarrow> ('c, 'f) Store \<Rightarrow> gotime \<Rightarrow> MetricPoint \<Rightarrow> metric" where
  "got_metric hash s now p =
     (case map_of (s_metrics s) (hash (mp_Labels p)) of
        Some m \<Rightarrow> m\<lparr>m_annotations := mp_Annotations p\<rparr>
      | None \<Rightarrow> \<lparr>m_labels = mp_Labels p, m_annotations = mp_Annotations p,
                 m_metricID = hash (mp_Labels p), m_createAt = now, m_lastPoint = zero_time\<rparr>)"

definition duplicate :: "'c chunkenc \<Rightarrow> (labels \<Rightarrow> int) \<Rightarrow> ('c, 'f) Store \<Rightarrow> MetricPoint \<Rightarrow> bool" where
  "duplicate E hash s p \<longleftrightarrow>
     (let ps = getPoints E (s_points s) (hash (mp_Labels p))
      in ps \<noteq> [] \<and> pt_Time (last ps) = pt_Time (mp_Point p))"

lemma duplicate_check:
  assumes "chunk_ok E"
  shows "(0 < points_count E (s_points s) (hash (mp_Labels p)) \<and>
      pt_Time (getPoint E (s_points s) (hash (mp_Labels p)) (points_count E (s_points s) (hash (mp_Labels p)) - 1))
        = pt_Time (mp_Point p)) = duplicate E hash s p"
  using getPoint_last [of E "s_points s" "hash (mp_Labels p)"]
  by (auto simp: duplicate_def Let_def points_count_getPoints [OF assms])

lemma push_one_result:
  fixes s :: "('c, 'f) Store" and p :: MetricPoint
  assumes "chunk_ok E" "store_inv hash s"
  defines "h \<equiv> hash (mp_Labels p)"
  shows "push_one E hash now p s =
    (let found = map_of (s_metrics s) h \<noteq> None;
         s1 = (if found then s\<lparr>s_metrics := gm_set h (got_metric hash s now p) (s_metrics s)\<rparr> else s)
     in if duplicate E hash s p then (s1, False, False)
        else if pt_Value (mp_Point p) = StaleNaN
        then (s1\<lparr>s_metrics := gm_del h (s_metrics s1), s_points := dropPoints (s_points s) h\<rparr>, False, False)
        else ((if found \<and> annotations_Changed (m_annotations (the (map_of (s_metrics s) h))) (mp_Annotations p)
               then s1\<lparr>s_lastAnnotationChange := now\<rparr> else s1)
                \<lparr>s_metrics := gm_set h ((got_metric hash s now p)\<lparr>m_lastPoint := now\<rparr>) (s_metrics s1),
                 s_points := pushPoint E (s_points s) h (mp_Point p)\<rparr>, True, \<not> found))"
proof (cases "map_of (s_metrics s) h")
  case None
  then show ?thesis
    using duplicate_check [OF assms(1), of s hash p]
    unfolding push_one_def metricGet_def Let_def h_def got_metric_def by simp
next
  case (Some m)
  then have "m_metricID m = h" using assms(2) by (simp add: store_inv_def)
  with Some show ?thesis
    using duplicate_check [OF assms(1), of s hash p]
    unfolding push_one_def metricGet_def Let_def h_def got_metric_def by simp
qed

lemma duplicate_found:
  assumes "store_inv hash s" "duplicate E hash s p"
  shows "map_of (s_metrics s) (hash (mp_Labels p)) \<noteq> None"
proof
  assume "map_of (s_metrics s) (hash (mp_Labels p)) = None"
  then have "map_of (s_points s) (hash (mp_Labels p)) = None"
    using assms(1) unfolding store_inv_def by blast
  with assms(2) show False by (simp add: duplicate_def getPoints_def)
qed

lemma got_metric_fields [simp]:
  "m_annotations (got_metric hash s now p) = mp_Annotations p"
  "store_inv hash s \<Longrightarrow> m_metricID (got_metric hash s now p) = hash (mp_Labels p)"
  "store_inv hash s \<Longrightarrow> hash (m_labels (got_metric hash s now p)) = hash (mp_Labels p)"
  by (auto simp: got_metric_def store_inv_def split: option.splits)

lemma push_one_fields:
  assumes "chunk_ok E" "store_inv hash s"
  shows "map_of (s_metrics (fst (push_one E hash now p s))) =
           (map_of (s_metrics s))(hash (mp_Labels p) :=
              (if duplicate E hash s p then Some (got_metric hash s now p)
               else if pt_Value (mp_Point p) = StaleNaN then None
               else Some ((got_metric hash s now p)\<lparr>m_lastPoint := now\<rparr>)))"
    and "s_points (fst (push_one E hash now p s)) =
           (if duplicate E hash s p then s_points s
            else if pt_Value (mp_Point p) = StaleNaN then dropPoints (s_points s) (hash (mp_Labels p))
            else pushPoint E (s_points s) (hash (mp_Labels p)) (mp_Point p))"
    and "gm_wf (s_metrics (fst (push_one E hash now p s)))"
    and "fst (snd (push_one E hash now p s)) \<longleftrightarrow> \<not> duplicate E hash s p \<and> pt_Value (mp_Point p) \<noteq> StaleNaN"
  using duplicate_found [OF assms(2), of E p] assms(2)
  unfolding push_one_result [OF assms] Let_def store_inv_def
  by (auto simp: gm_wf_set gm_wf_del)

lemma push_one_inv:
  assumes "chunk_ok E" "store_inv hash s"
  shows "store_inv hash (fst (push_one E hash now p s))"
  using assms(2) got_metric_fields(2,3) [OF assms(2), of now p] duplicate_found [OF assms(2), of E p]
    push_one_fields(3) [OF assms, of now p]
  unfolding store_inv_def push_one_fields(1,2) [OF assms]
  by (auto simp: dropPoints_def pushPoint_def gm_wf_set gm_wf_del split: if_splits)

lemma series_push_one:
  assumes "chunk_ok E" "store_inv hash s"
    and "length (getPoints E (s_points s) (hash (mp_Labels p))) < 65535"
  shows "series E (fst (push_one E hash now p s)) h =
           (if h = hash (mp_Labels p) then push_series p (series E s h) else series E s h)"
proof -
  have none: "map_of (s_metrics s) (hash (mp_Labels p)) = None \<Longrightarrow> getPoints E (s_points s) (hash (mp_Labels p)) = []"
    using assms(2) by (simp add: store_inv_def getPoints_def)
  show ?thesis
    using none getPoints_pushPoint [OF assms(1,3)]
    by (cases "map_of (s_metrics s) (hash (mp_Labels p))")
      (auto simp: series_def push_one_fields [OF assms(1,2)] duplicate_def Let_def got_metric_def)
qed

lemma getPoints_push_one_length:
  assumes "chunk_ok E" "store_inv hash s" "length (getPoints E (s_points s) (hash (mp_Labels p))) < 65535"
  shows "length (getPoints E (s_points (fst (push_one E hash now p s))) h) \<le> Suc (length (getPoints E (s_points s) h))"
  using getPoints_pushPoint [OF assms(1,3)] by (simp add: push_one_fields [OF assms(1,2)])

abbreviation (input) capacity :: "'c chunkenc \<Rightarrow> ('c, 'f) Store \<Rightarrow> nat \<Rightarrow> bool" where
  "capacity E s n \<equiv> \<forall>h. length (getPoints E (s_points s) h) + n < 65536"

lemma push_loop_spec:
  assumes "chunk_ok E" "store_inv hash s" "capacity E s (length ps)"
    and "push_loop E hash clock i ps s = (s', dedup, new)"
  shows "store_inv hash s' \<and> s_notifyCallbacks s' = s_notifyCallbacks s \<and> set dedup \<subseteq> set ps \<and>
         series E s' h = fold push_series (filter (\<lambda>p. hash (mp_Labels p) = h) ps) (series E s h)"
  using assms(2-)
proof (induction ps arbitrary: s s' i dedup new)
  case Nil
  then show ?case by simp
next
  case (Cons p ps)
  obtain s1 kept isNew where one: "push_one E hash (clock i) p s = (s1, kept, isNew)" by (metis prod_cases3)
  obtain dedup1 new1 where l: "push_loop E hash clock (Suc i) ps s1 = (s', dedup1, new1)"
    and dedup: "dedup = (if kept then p # dedup1 else dedup1)"
    using Cons.prems(3) one by (auto split: prod.splits)
  have cap: "length (getPoints E (s_points s) (hash (mp_Labels p))) < 65535"
    using Cons.prems(2) [rule_format, of "hash (mp_Labels p)"] by simp
  have inv: "store_inv hash s1" using push_one_inv [OF assms(1) Cons.prems(1), of "clock i" p] one by simp
  have "length (getPoints E (s_points s1) h) + length ps < 65536" for h
    using getPoints_push_one_length [OF assms(1) Cons.prems(1) cap, of "clock i" h] one
      Cons.prems(2) [rule_format, of h] by simp
  then have IH: "store_inv hash s' \<and> s_notifyCallbacks s' = s_notifyCallbacks s1 \<and> set dedup1 \<subseteq> set ps \<and>
      series E s' h = fold push_series (filter (\<lambda>p. hash (mp_Labels p) = h) ps) (series E s1 h)"
    using Cons.IH [OF inv _ l] by blast
  have cb: "s_notifyCallbacks s1 = s_notifyCallbacks s"
    using push_one_result [OF assms(1) Cons.prems(1), of "clock i" p] one
    by (simp add: Let_def split: if_splits)
  show ?case
    using IH cb dedup series_push_one [OF assms(1) Cons.prems(1) cap, of "clock i" h] one by auto
qed

lemma PushPoints_series_aux:
  assumes "chunk_ok E" "store_inv hash s" "capacity E s (length points)"
  shows "store_inv hash (fst (PushPoints E hash clock points s)) \<and>
         series E (fst (PushPoints E hash clock points s)) h =
           fold push_series (filter (\<lambda>p. hash (mp_Labels p) = h) points) (series E s h)"
proof -
  obtain s' dedup new where l: "push_loop E hash clock 0 points s = (s', dedup, new)"
    by (metis prod_cases3)
  show ?thesis using push_loop_spec [OF assms l] by (simp add: PushPoints_def l)
qed

text \<open>
  C2 (pushing points refines the series). With labels told apart by their hash, the series of a
  hash after a batch is its series before, updated by its own points in order: a point with the
  time of the last one only updates the annotations, a stale marker removes the series, any
  other point is appended; the tables stay consistent and other series are not touched.
\<close>

theorem PushPoints_series:
  assumes "chunk_ok E" "store_inv hash s"
    and "\<forall>h. length (getPoints E (s_points s) h) + length points < 65536"
  shows "store_inv hash (fst (PushPoints E hash clock points s)) \<and>
         series E (fst (PushPoints E hash clock points s)) h =
           fold push_series (filter (\<lambda>p. hash (mp_Labels p) = h) points) (series E s h)"
  using assms by (rule PushPoints_series_aux)

text \<open>The samples of a chunk as a list, to run the store.\<close>

definition list_chunk :: "(int \<times> float64) list chunkenc" where
  "list_chunk = \<lparr>ck_New = [], ck_Append = (\<lambda>c t v. c @ [(t, v)]), ck_Samples = (\<lambda>c. c),
     ck_NumSamples = (\<lambda>c. int (length c))\<rparr>"

lemma chunk_ok_list [simp]: "chunk_ok list_chunk"
  by (simp add: chunk_ok_def list_chunk_def)

definition labels_hash :: "labels \<Rightarrow> int" where
  "labels_hash l = int (length l)"

lemma store_inv_New [simp]: "store_inv hash (store_New a b)"
  by (simp add: store_inv_def store_New_def)

lemma series_New [simp]: "series E (store_New a b) h = None" "getPoints E (s_points (store_New a b)) h = []"
  by (simp_all add: series_def store_New_def getPoints_def)

abbreviation (input) example_push :: "int \<Rightarrow> MetricPoint" where
  "example_push ms \<equiv> \<lparr>mp_Point = \<lparr>pt_Time = time_of_unix_milli ms, pt_Value = FFin 1\<rparr>,
     mp_Labels = [(''__name__'', ''cpu_used'')], mp_Annotations = zero_annotations\<rparr>"

theorem PushPoints_series_witness:
  "series list_chunk (fst (PushPoints list_chunk labels_hash (\<lambda>i. 5) [example_push 1, example_push 1, example_push 2]
      (store_New 10 10 :: ((int \<times> float64) list, nat) Store))) 1 =
     Some ([(''__name__'', ''cpu_used'')], zero_annotations,
       [\<lparr>pt_Time = time_of_unix_milli 1, pt_Value = FFin 1\<rparr>, \<lparr>pt_Time = time_of_unix_milli 2, pt_Value = FFin 1\<rparr>])"
  using PushPoints_series [of list_chunk labels_hash "store_New 10 10 :: ((int \<times> float64) list, nat) Store"
      "[example_push 1, example_push 1, example_push 2]" "\<lambda>i. 5" 1]
  by (simp add: labels_hash_def StaleNaN_def ms_point_def)

section \<open>Purging\<close>

lemma ms_point_sample [simp]: "ms_point (sample_point x) = sample_point x"
  by (simp add: ms_point_def sample_point_def)

lemma getPoints_ms: "p \<in> set (getPoints E epts h) \<Longrightarrow> ms_point p = p"
  by (auto simp: getPoints_def split: option.splits)

lemma fold_append_point:
  assumes "chunk_ok E" "length (ck_Samples E (pd_chunk d)) + length ps < 65536"
  shows "map sample_point (ck_Samples E (pd_chunk (fold (append_point E) ps d))) =
           map sample_point (ck_Samples E (pd_chunk d)) @ map ms_point ps"
  using assms(2)
proof (induction ps arbitrary: d)
  case (Cons p ps)
  have "length (ck_Samples E (pd_chunk d)) < 65535" using Cons.prems by simp
  note one = append_point_samples [OF assms(1) this, of p]
  have "length (ck_Samples E (pd_chunk (append_point E p d))) = Suc (length (ck_Samples E (pd_chunk d)))"
    using arg_cong [OF one, of length] by simp
  then show ?case using Cons one by simp
qed simp

lemma getPoints_setPoints:
  assumes "chunk_ok E" "length ps < 65536"
  shows "getPoints E (setPoints E epts h ps) h' = (if h' = h then map ms_point ps else getPoints E epts h')"
  using fold_append_point [OF assms(1), of "empty_pointsData E" ps] assms
  by (auto simp: setPoints_def Let_def getPoints_def dropPoints_def chunk_ok_def empty_pointsData_def)

lemma getPoints_fold_dropPoints [simp]:
  "getPoints E (fold (\<lambda>i epts. dropPoints epts i) ks epts) h = (if h \<in> set ks then [] else getPoints E epts h)"
  by (induction ks arbitrary: epts) auto

lemma getPoints_fold_setPoints:
  assumes "chunk_ok E" "\<And>im. length (f im) < 65536" "\<And>im. map ms_point (f im) = f im" "gm_wf ms"
  shows "getPoints E (fold (\<lambda>im epts. if P im then epts else setPoints E epts (fst im) (f im)) ms epts) h =
     (case map_of ms h of
        None \<Rightarrow> getPoints E epts h
      | Some m \<Rightarrow> if P (h, m) then getPoints E epts h else f (h, m))"
  using assms(4)
proof (induction ms arbitrary: epts)
  case (Cons im ms)
  obtain k m where im: "im = (k, m)" by (cases im)
  have "map_of ms k = None" using Cons.prems im by (simp add: map_of_eq_None_iff)
  then show ?case
    using Cons im getPoints_setPoints [OF assms(1,2)] assms(3) by (auto split: option.splits)
qed simp

text \<open>
  C26 (purging). A purge removes exactly the metrics that have no young point and received none
  for the maximal age of a metric; every other metric keeps its labels, its annotations and its
  points that are younger than the maximal age of a point, in order.
\<close>

theorem store_run_series:
  assumes "chunk_ok E" "store_inv hash s" "\<forall>h. length (getPoints E (s_points s) h) < 65536"
  shows "series E (store_run E s now) h =
     (case map_of (s_metrics s) h of
        None \<Rightarrow> None
      | Some m \<Rightarrow>
          if (\<forall>p \<in> set (getPoints E (s_points s) h). s_maxPointsAge s \<le> time_sub now (pt_Time p)) \<and>
             s_maxMetricsAge s \<le> time_sub now (m_lastPoint m)
          then None
          else Some (m_labels m, m_annotations m,
                 filter (\<lambda>p. time_sub now (pt_Time p) < s_maxPointsAge s) (getPoints E (s_points s) h)))"
proof -
  have wf: "gm_wf (s_metrics s)" using assms(2) by (simp add: store_inv_def)
  have len: "length (young_points E s now (fst im)) < 65536" for im :: "int \<times> metric"
    unfolding young_points_def using assms(3) by (blast intro: le_less_trans [OF length_filter_le])
  have ms: "map ms_point (young_points E s now (fst im)) = young_points E s now (fst im)" for im :: "int \<times> metric"
    by (rule map_idI) (auto simp: young_points_def getPoints_ms)
  have deleted: "h \<in> set (map fst (filter (to_delete E s now) (s_metrics s))) \<longleftrightarrow>
      (\<exists>m. map_of (s_metrics s) h = Some m \<and> to_delete E s now (h, m))"
    using wf by (force simp: image_iff)
  have rule: "to_delete E s now (h, m) \<longleftrightarrow>
      (\<forall>p \<in> set (getPoints E (s_points s) h). s_maxPointsAge s \<le> time_sub now (pt_Time p)) \<and>
      s_maxMetricsAge s \<le> time_sub now (m_lastPoint m)" for m
    by (auto simp: to_delete_def young_points_def filter_empty_conv not_less)
  have "series E (store_run E s now) h =
     (case map_of (s_metrics s) h of
        None \<Rightarrow> None
      | Some m \<Rightarrow>
          if to_delete E s now (h, m) then None
          else Some (m_labels m, m_annotations m,
                 filter (\<lambda>p. time_sub now (pt_Time p) < s_maxPointsAge s) (getPoints E (s_points s) h)))"
    using deleted
    by (auto simp: series_def store_run_def Let_def map_of_fold_gm_del young_points_def
        getPoints_fold_setPoints [OF assms(1) len ms wf] split: option.splits)
  then show ?thesis unfolding rule .
qed

theorem store_run_series_witness:
  "series list_chunk (store_run list_chunk
      (fst (PushPoints list_chunk labels_hash (\<lambda>i. 0) [example_push 1]
         (store_New 10 10 :: ((int \<times> float64) list, nat) Store))) (time_of_unix_milli 1 + 20)) 1 = None"
proof -
  let ?s = "fst (PushPoints list_chunk labels_hash (\<lambda>i. 0) [example_push 1]
         (store_New 10 10 :: ((int \<times> float64) list, nat) Store))"
  have inv: "store_inv labels_hash ?s"
    using PushPoints_series_aux [of list_chunk labels_hash "store_New 10 10 :: ((int \<times> float64) list, nat) Store"
      "[example_push 1]" "\<lambda>i. 0"] by simp
  have s: "?s = (store_New 10 10)\<lparr>s_metrics := [(1, \<lparr>m_labels = [(''__name__'', ''cpu_used'')],
        m_annotations = zero_annotations, m_metricID = 1, m_createAt = 0, m_lastPoint = 0\<rparr>)],
      s_points := [(1, \<lparr>pd_chunk = [(1, FFin 1)], pd_oldest = time_of_unix_milli 1,
        pd_youngest = time_of_unix_milli 1\<rparr>)]\<rparr>"
    by (simp add: PushPoints_def push_one_def metricGet_def store_New_def labels_hash_def Let_def
        points_count_def StaleNaN_def pushPoint_def append_point_def empty_pointsData_def list_chunk_def)
  have cap: "\<forall>h. length (getPoints list_chunk (s_points ?s) h) < 65536"
    unfolding s by (simp add: getPoints_def list_chunk_def split: option.split)
  show ?thesis
    using store_run_series [OF chunk_ok_list inv cap, of "time_of_unix_milli 1 + 20" 1] unfolding s
    by (simp add: getPoints_def list_chunk_def sample_point_def time_of_unix_milli_def time_sub_def store_New_def)
qed

section \<open>The tables and the listeners\<close>

lemma store_inv_setPoints:
  assumes "store_inv hash s" "set ms \<subseteq> set (s_metrics s)"
  shows "store_inv hash (s\<lparr>s_points := fold (\<lambda>im epts. if P im then epts else setPoints E epts (fst im) (f im))
           ms (s_points s)\<rparr>)"
  using assms
proof (induction ms arbitrary: s)
  case Nil
  then show ?case by simp
next
  case (Cons im ms)
  let ?epts = "if P im then s_points s else setPoints E (s_points s) (fst im) (f im)"
  have "map_of (s_metrics s) (fst im) \<noteq> None"
    using Cons.prems(2) by (auto simp: map_of_eq_None_iff)
  then have "store_inv hash (s\<lparr>s_points := ?epts\<rparr>)"
    using Cons.prems(1)
    by (auto simp: store_inv_def setPoints_def dropPoints_def Let_def gm_wf_set gm_wf_del)
  from Cons.IH [OF this] show ?case using Cons.prems(2) by simp
qed

lemma store_inv_drop:
  assumes "store_inv hash s" "gm_wf ms" "\<And>h. map_of ms h = (if h \<in> set ks then None else map_of (s_metrics s) h)"
  shows "store_inv hash (s\<lparr>s_metrics := ms, s_points := fold (\<lambda>i epts. dropPoints epts i) ks (s_points s)\<rparr>)"
proof -
  have "fold (\<lambda>i epts. dropPoints epts i) ks (s_points s) = fold gm_del ks (s_points s)"
    by (simp add: dropPoints_def [abs_def])
  with assms show ?thesis
    by (auto simp: store_inv_def map_of_fold_gm_del gm_wf_fold_gm_del simp del: map_of_eq_Some_iff
        split: if_splits)
qed

lemma store_run_inv:
  assumes "store_inv hash s"
  shows "store_inv hash (store_run E s now)"
proof -
  let ?epts = "fold (\<lambda>im epts. if to_delete E s now im then epts
      else setPoints E epts (fst im) (young_points E s now (fst im))) (s_metrics s) (s_points s)"
  have "store_inv hash (s\<lparr>s_points := ?epts\<rparr>)"
    using store_inv_setPoints [OF assms subset_refl] .
  from store_inv_drop [OF this, of "fold gm_del (map fst (filter (to_delete E s now) (s_metrics s))) (s_metrics s)"]
  show ?thesis
    using assms by (simp add: store_run_def Let_def map_of_fold_gm_del gm_wf_fold_gm_del store_inv_def)
qed

lemma DropMetrics_inv:
  assumes "store_inv hash s"
  shows "store_inv hash (DropMetrics s labelsList)"
proof -
  let ?P = "\<lambda>im. \<exists>l \<in> set labelsList. labels_equal (m_labels (snd im)) l"
  have wf: "gm_wf (s_metrics s)" using assms by (simp add: store_inv_def)
  have ks: "h \<in> set (map fst (filter ?P (s_metrics s))) \<longleftrightarrow>
      (\<exists>m. map_of (s_metrics s) h = Some m \<and> ?P (h, m))" for h
    using wf by (force simp: image_iff)
  have "map_of (filter (\<lambda>im. \<not> ?P im) (s_metrics s)) h =
      (if h \<in> set (map fst (filter ?P (s_metrics s))) then None else map_of (s_metrics s) h)" for h
    unfolding ks by (simp add: map_of_filter_wf [OF wf] split: option.splits)
  from store_inv_drop [OF assms gm_wf_filter [OF wf] this] show ?thesis
    by (simp add: DropMetrics_def Let_def case_prod_unfold)
qed

inductive store_reach :: "'c chunkenc \<Rightarrow> (labels \<Rightarrow> int) \<Rightarrow> ('c, 'f) Store \<Rightarrow> bool" for E hash where
  new: "store_reach E hash (store_New maxPointsAge maxMetricsAge)"
| push: "store_reach E hash s \<Longrightarrow> \<forall>h. length (getPoints E (s_points s) h) + length points < 65536 \<Longrightarrow>
    store_reach E hash (fst (PushPoints E hash clock points s))"
| purge: "store_reach E hash s \<Longrightarrow> store_reach E hash (store_run E s now)"
| drop: "store_reach E hash s \<Longrightarrow> store_reach E hash (DropMetrics s labelsList)"
| drop_all: "store_reach E hash s \<Longrightarrow> store_reach E hash (DropAllMetrics s)"
| add: "store_reach E hash s \<Longrightarrow> store_reach E hash (fst (AddNotifiee s cb))"
| remove: "store_reach E hash s \<Longrightarrow> store_reach E hash (RemoveNotifiee s slot)"
| callback: "store_reach E hash s \<Longrightarrow> store_reach E hash (SetNewMetricCallback s cb)"

lemma store_reach_inv_aux:
  assumes "chunk_ok E"
  shows "store_reach E hash s \<Longrightarrow> store_inv hash s"
proof (induction rule: store_reach.induct)
  case (push s points clock)
  then show ?case using PushPoints_series_aux assms by blast
next
  case (add s cb)
  then show ?case by (simp add: AddNotifiee_def Let_def store_inv_def)
qed (simp_all add: store_run_inv DropMetrics_inv, simp_all add: store_inv_def DropAllMetrics_def
      RemoveNotifiee_def SetNewMetricCallback_def)

text \<open>
  C27 (consistent tables). In every reachable store each hash has at most one metric, stored under
  the hash of its labels, and points are only kept for hashes that have a metric.
\<close>

theorem store_reach_inv:
  assumes "chunk_ok E" "store_reach E hash s"
  shows "gm_wf (s_metrics s) \<and> gm_wf (s_points s) \<and>
         (\<forall>h m. map_of (s_metrics s) h = Some m \<longrightarrow> m_metricID m = h \<and> hash (m_labels m) = h) \<and>
         (\<forall>h. map_of (s_metrics s) h = None \<longrightarrow> map_of (s_points s) h = None)"
  using store_reach_inv_aux [OF assms] unfolding store_inv_def .

theorem store_reach_inv_witness:
  "gm_wf (s_points (store_run list_chunk (fst (PushPoints list_chunk labels_hash (\<lambda>i. 0) [example_push 1]
      (store_New 10 10 :: ((int \<times> float64) list, nat) Store))) 5))"
proof -
  have "store_reach list_chunk labels_hash (store_run list_chunk
      (fst (PushPoints list_chunk labels_hash (\<lambda>i. 0) [example_push 1]
      (store_New 10 10 :: ((int \<times> float64) list, nat) Store))) 5)"
    by (intro store_reach.intros) simp
  from store_reach_inv [OF chunk_ok_list this] show ?thesis by simp
qed

lemma free_slot_free: "\<not> gm_mem (free_slot m i) m \<and> i \<le> free_slot m i"
proof (induction m i rule: free_slot.induct)
  case (1 m i)
  show ?case by (cases "gm_mem i m") (use 1 in \<open>auto simp: free_slot.simps [of m i]\<close>)
qed

lemma push_loop_listeners:
  "s_notifyCallbacks (fst (push_loop E hash clock i ps s)) = s_notifyCallbacks s \<and>
   set (fst (snd (push_loop E hash clock i ps s))) \<subseteq> set ps"
proof (induction ps arbitrary: i s)
  case (Cons p ps)
  have "s_notifyCallbacks (fst (push_one E hash (clock i) p s)) = s_notifyCallbacks s"
    by (simp add: push_one_def metricGet_def Let_def split: option.splits)
  then show ?case
    using Cons [of "Suc i" "fst (push_one E hash (clock i) p s)"] by (auto simp: split_beta Let_def)
qed simp

text \<open>
  Listeners. A new listener gets a slot that was free, the other listeners keep theirs, and
  a push calls every registered listener exactly once, all with the same points, which are among
  those that were pushed.
\<close>

theorem notifiees:
  "\<not> gm_mem (snd (AddNotifiee s cb)) (s_notifyCallbacks s) \<and>
   map_of (s_notifyCallbacks (fst (AddNotifiee s cb))) =
     (map_of (s_notifyCallbacks s))(snd (AddNotifiee s cb) \<mapsto> cb) \<and>
   (\<exists>dedupPoints. set dedupPoints \<subseteq> set points \<and>
      filter (\<lambda>c. case c of NotifyCall f ps \<Rightarrow> True | _ \<Rightarrow> False) (snd (PushPoints E hash clock points s)) =
        map (\<lambda>(slot, f). NotifyCall f dedupPoints) (s_notifyCallbacks s))"
proof -
  note cbs = push_loop_listeners
  let ?l = "push_loop E hash clock 0 points s"
  have "filter (\<lambda>c. case c of NotifyCall f ps \<Rightarrow> True | _ \<Rightarrow> False) (snd (PushPoints E hash clock points s)) =
        map (\<lambda>(slot, f). NotifyCall f (fst (snd ?l))) (s_notifyCallbacks s)"
    using cbs [of E hash clock 0 points s]
    by (auto simp: PushPoints_def split_beta Let_def filter_map comp_def case_prod_unfold split: option.splits)
  then show ?thesis
    using cbs [of E hash clock 0 points s] free_slot_free [of "s_notifyCallbacks s" 1]
    by (auto simp: AddNotifiee_def Let_def)
qed

text \<open>
  A time below the millisecond is never a duplicate. The time of the last stored point is
  rounded to the millisecond and compared with the exact time of the new one, so pushing the same
  point twice stores it twice when its time is not a whole number of milliseconds.
\<close>

theorem submillisecond_not_deduplicated:
  assumes "chunk_ok E" "store_inv hash s"
    and "time_of_unix_milli (unix_milli (pt_Time (mp_Point p))) \<noteq> pt_Time (mp_Point p)"
    and "pt_Value (mp_Point p) \<noteq> StaleNaN"
  shows "fst (snd (push_one E hash now p s))"
proof -
  have "\<not> duplicate E hash s p"
  proof
    assume "duplicate E hash s p"
    then obtain q where "q \<in> set (getPoints E (s_points s) (hash (mp_Labels p)))"
      and t: "pt_Time q = pt_Time (mp_Point p)"
      using last_in_set by (fastforce simp: duplicate_def Let_def)
    then have "ms_point q = q" by (simp add: getPoints_ms)
    then have "pt_Time (ms_point q) = pt_Time q" by simp
    then show False using assms(3) t by (simp add: ms_point_def)
  qed
  then show ?thesis using push_one_fields(4) [OF assms(1,2)] assms(4) by blast
qed

theorem submillisecond_not_deduplicated_witness:
  "fst (snd (push_one list_chunk labels_hash 0 ((example_push 1)\<lparr>mp_Point := \<lparr>pt_Time = 7, pt_Value = FFin 1\<rparr>\<rparr>)
     (store_New 10 10 :: ((int \<times> float64) list, nat) Store)))"
  by (rule submillisecond_not_deduplicated)
    (simp_all add: time_of_unix_milli_def unix_milli_def StaleNaN_def)

text \<open>
  An annotation change on a repeated time is not reported. A point that repeats the time of
  the last one still replaces the annotations of its metric, but the time of the last annotation
  change stays, even when they changed.
\<close>

theorem annotation_change_not_reported:
  assumes "chunk_ok E" "store_inv hash s" "duplicate E hash s p"
  shows "s_lastAnnotationChange (fst (push_one E hash now p s)) = s_lastAnnotationChange s \<and>
         map_option m_annotations (map_of (s_metrics (fst (push_one E hash now p s))) (hash (mp_Labels p))) =
           Some (mp_Annotations p)"
  using assms(3) by (simp add: push_one_fields(1) [OF assms(1,2)])
    (simp add: push_one_result [OF assms(1,2)] Let_def)

theorem annotation_change_not_reported_witness:
  "s_lastAnnotationChange (fst (push_one list_chunk labels_hash 9
      ((example_push 1)\<lparr>mp_Annotations := zero_annotations\<lparr>ContainerID := ''c''\<rparr>\<rparr>)
      (fst (PushPoints list_chunk labels_hash (\<lambda>i. 0) [example_push 1]
         (store_New 10 10 :: ((int \<times> float64) list, nat) Store))))) = 0"
proof -
  let ?s = "fst (PushPoints list_chunk labels_hash (\<lambda>i. 0) [example_push 1]
         (store_New 10 10 :: ((int \<times> float64) list, nat) Store))"
  let ?p = "(example_push 1)\<lparr>mp_Annotations := zero_annotations\<lparr>ContainerID := ''c''\<rparr>\<rparr>"
  have spec: "store_inv labels_hash ?s \<and> series list_chunk ?s 1 =
      Some ([(''__name__'', ''cpu_used'')], zero_annotations, [\<lparr>pt_Time = time_of_unix_milli 1, pt_Value = FFin 1\<rparr>])"
    using PushPoints_series_aux [of list_chunk labels_hash "store_New 10 10 :: ((int \<times> float64) list, nat) Store"
      "[example_push 1]" "\<lambda>i. 0" 1] by (simp add: labels_hash_def StaleNaN_def ms_point_def)
  have dup: "duplicate list_chunk labels_hash ?s ?p"
    using spec by (auto simp: duplicate_def series_def labels_hash_def)
  have "s_lastAnnotationChange ?s = 0"
    by (simp add: PushPoints_def push_one_def metricGet_def store_New_def Let_def points_count_def StaleNaN_def)
  with annotation_change_not_reported [OF chunk_ok_list conjunct1 [OF spec] dup, of 9] show ?thesis by simp
qed

section \<open>The interface behind a filtered store\<close>

text \<open>
  What a \<open>FilteredStore\<close> relies on: the wrapped store only passes on points it was given.
\<close>

locale point_store =
  fixes push :: "MetricPoint list \<Rightarrow> 's \<Rightarrow> 's \<times> 'f store_call list"
  assumes push_passes_on: "NotifyCall f ps \<in> set (snd (push points s)) \<Longrightarrow> set ps \<subseteq> set points"
begin

lemma filtered_push_passes_on:
  assumes "NotifyCall f ps \<in> set (snd (push (flt points) s))" "\<And>xs. set (flt xs) = {x \<in> set xs. ok x}"
  shows "\<forall>p \<in> set ps. ok p \<and> p \<in> set points"
  using push_passes_on [OF assms(1)] assms(2) by auto

end

interpretation store: point_store "PushPoints E hash clock" for E hash clock
proof
  fix f ps points s
  assume "NotifyCall f ps \<in> set (snd (PushPoints E hash clock points s))"
  then have "ps = fst (snd (push_loop E hash clock 0 points s))"
    by (auto simp: PushPoints_def split_beta Let_def split: option.splits if_splits)
  then show "set ps \<subseteq> set points" using push_loop_listeners by metis
qed

text \<open>
  A filtered store hides rejected points. When the filter keeps exactly the points that
  satisfy a predicate, no listener is called with a point that does not, or that was not pushed.
\<close>

theorem filtered_push:
  assumes "\<And>xs. set (flt xs) = {x \<in> set xs. ok x}"
    and "NotifyCall f ps \<in> set (snd (FilteredStore_PushPoints E hash (Some flt) clock points s))"
  shows "\<forall>p \<in> set ps. ok p \<and> p \<in> set points"
proof -
  have "NotifyCall f ps \<in> set (snd (PushPoints E hash clock (flt points) s))"
    using assms(2) assms(1) [of "[]"] by (cases points) (auto simp: FilteredStore_PushPoints_def)
  from store.filtered_push_passes_on [OF this assms(1)] show ?thesis .
qed

theorem filtered_push_witness:
  "mp_Annotations (example_push 1) = zero_annotations \<and> example_push 1 \<in> set [example_push 1, example_push 1]"
proof -
  have "\<forall>p \<in> set [example_push 1]. mp_Annotations p = zero_annotations \<and> p \<in> set [example_push 1, example_push 1]"
    by (rule filtered_push [of "filter (\<lambda>p. mp_Annotations p = zero_annotations)" _ "0::nat" _ list_chunk labels_hash
          "\<lambda>i. 0" _ "(store_New 10 10)\<lparr>s_notifyCallbacks := [(1, 0)]\<rparr>"])
      (auto simp: FilteredStore_PushPoints_def PushPoints_def push_one_def metricGet_def store_New_def labels_hash_def
        Let_def points_count_def StaleNaN_def pushPoint_def append_point_def empty_pointsData_def list_chunk_def
        getPoint_def sample_point_def)
  then show ?thesis by (rule bspec) (rule list.set_intros)
qed

end
