(* ===== verification/MqttConnection.thy ===== *)
theory MqttConnection
  imports Prelude
begin

text \<open>
  The connection of the MQTT client (\<^verbatim>\<open>mqtt/client/client.go\<close>): the goroutines \<open>connectionManager\<close>
  and \<open>receiveEvents\<close> of \<open>Run\<close>, with the methods other goroutines call, as a step relation. The
  broker client of the paho library is opaque: a connection is a number, and whether an attempt
  succeeds or a connection is open is a choice of the step.
\<close>

section \<open>Connection manager\<close>

text \<open>
  The state of \<open>connectionManager\<close>: its local variables, and the fields of \<open>Client\<close> it shares with
  the other goroutines. \<open>cm_log\<close> records the calls it makes outside of the client.
\<close>

datatype conn_event = Attempt gotime | TooManyErrors | AuthenticationError | Disconnected nat

record conn_manager =
  cm_lastConnectionTimes :: "gotime list"
  cm_currentConnectDelay :: duration
  cm_consecutiveError :: nat
  cm_pingMissingConsecutive :: nat
  cm_log :: "conn_event list"

record client =
  c_mqtt :: "nat option"
  c_disabledUntil :: gotime
  c_lastReport :: gotime
  c_lastConnectionTimes :: "gotime list"
  c_currentConnectDelay :: duration
  c_consecutiveErrors :: nat

abbreviation (input) minute :: duration where
  "minute \<equiv> 60 * second"

definition minimalDelayBetweenConnect :: duration where
  "minimalDelayBetweenConnect = 5 * second"

definition maximalDelayBetweenConnect :: duration where
  "maximalDelayBetweenConnect = 10 * minute"

definition stableConnection :: duration where
  "stableConnection = 5 * minute"

definition maxDelayWithoutPing :: duration where
  "maxDelayWithoutPing = 90 * second"

definition conn_manager_init :: conn_manager where
  "conn_manager_init =
     \<lparr>cm_lastConnectionTimes = [], cm_currentConnectDelay = minimalDelayBetweenConnect div 2,
      cm_consecutiveError = 0, cm_pingMissingConsecutive = 0, cm_log = []\<rparr>"

definition client_New :: "nat option \<Rightarrow> client" where
  "client_New reloaded =
     \<lparr>c_mqtt = reloaded, c_disabledUntil = zero_time, c_lastReport = zero_time,
      c_lastConnectionTimes = [], c_currentConnectDelay = 0, c_consecutiveErrors = 0\<rparr>"

text \<open>The top of the loop publishes the local variables for the diagnostic.\<close>

definition loop_top :: "conn_manager \<Rightarrow> client \<Rightarrow> client" where
  "loop_top m c = c\<lparr>c_lastConnectionTimes := cm_lastConnectionTimes m,
     c_currentConnectDelay := cm_currentConnectDelay m, c_consecutiveErrors := cm_consecutiveError m\<rparr>"

definition log_event :: "conn_event \<Rightarrow> conn_manager \<Rightarrow> conn_manager" where
  "log_event e m = m\<lparr>cm_log := cm_log m @ [e]\<rparr>"

text \<open>\<open>if c.mqtt != nil { c.mqtt.Disconnect(0) }; c.mqtt = nil\<close>, under the lock.\<close>

definition drop_connection :: "conn_manager \<Rightarrow> client \<Rightarrow> conn_manager \<times> client" where
  "drop_connection m c =
     (case c_mqtt c of
        None \<Rightarrow> (m, c)
      | Some p \<Rightarrow> (log_event (Disconnected p) m, c\<lparr>c_mqtt := None\<rparr>))"

definition too_many_attempts :: "gotime \<Rightarrow> conn_manager \<Rightarrow> bool" where
  "too_many_attempts now m =
     (let l = cm_lastConnectionTimes m; length' = length l
      in 7 \<le> length' \<and> time_sub now (l ! (length' - 7)) < 10 * minute)"

definition may_connect :: "gotime \<Rightarrow> conn_manager \<Rightarrow> bool" where
  "may_connect now m =
     (let l = cm_lastConnectionTimes m
      in l = [] \<or> cm_currentConnectDelay m < time_sub now (l ! (length l - 1)))"

text \<open>
  The start of an attempt: the time is recorded, at most 20 are kept, and the delay before the
  next attempt grows. \<open>jitter\<close> is what \<open>delay.JitterDelay\<close> returns.
\<close>

definition start_attempt :: "gotime \<Rightarrow> duration \<Rightarrow> conn_manager \<Rightarrow> conn_manager" where
  "start_attempt now jitter m =
     (let l = cm_lastConnectionTimes m @ [now];
          l = (if 20 < length l then drop (length l - 20) l else l);
          m = log_event (Attempt now) (m\<lparr>cm_lastConnectionTimes := l\<rparr>)
      in if cm_currentConnectDelay m < maximalDelayBetweenConnect
         then let m = m\<lparr>cm_consecutiveError := Suc (cm_consecutiveError m), cm_currentConnectDelay := jitter\<rparr>
              in if cm_consecutiveError m = 5 then log_event TooManyErrors m else m
         else m)"

definition connect_failed :: "nat \<Rightarrow> bool \<Rightarrow> conn_manager \<Rightarrow> conn_manager" where
  "connect_failed p authError m =
     log_event (Disconnected p) (if authError then log_event AuthenticationError m else m)"

text \<open>
  The check of an open connection: \<open>ping\<close> is the answer of \<open>PahoLastPingCheckAt\<close>, \<open>None\<close> when the
  option is not set. After two checks in a row without a recent ping the connection is dropped.
\<close>

definition check_ping :: "gotime \<Rightarrow> gotime option \<Rightarrow> conn_manager \<Rightarrow> client \<Rightarrow> conn_manager \<times> client" where
  "check_ping now ping m c =
     (if (case ping of None \<Rightarrow> False
          | Some t \<Rightarrow> t \<noteq> zero_time \<and> maxDelayWithoutPing < time_sub now t)
      then let m = m\<lparr>cm_pingMissingConsecutive := Suc (cm_pingMissingConsecutive m)\<rparr>
           in if 2 \<le> cm_pingMissingConsecutive m then drop_connection m c else (m, c)
      else (m\<lparr>cm_pingMissingConsecutive := 0\<rparr>, c))"

text \<open>The connection was lost; the answer says if it was stable, which delays the next attempt.\<close>

definition connection_lost :: "gotime \<Rightarrow> conn_manager \<Rightarrow> client \<Rightarrow> conn_manager \<times> client \<times> bool" where
  "connection_lost now m c =
     (let (m, c) = drop_connection m c; l = cm_lastConnectionTimes m
      in if l \<noteq> [] \<and> stableConnection < time_sub now (l ! (length l - 1))
         then (m\<lparr>cm_currentConnectDelay := minimalDelayBetweenConnect, cm_consecutiveError := 0\<rparr>, c, True)
         else (m, c, False))"

text \<open>The methods other goroutines call; each holds the lock.\<close>

definition Disable :: "gotime \<Rightarrow> client \<Rightarrow> client" where
  "Disable until c = c\<lparr>c_disabledUntil := until\<rparr>"

definition ForceReconnect :: "client \<Rightarrow> client" where
  "ForceReconnect c = (if c_mqtt c = None then c else c\<lparr>c_mqtt := None\<rparr>)"

definition Disconnect :: "client \<Rightarrow> client" where
  "Disconnect c = c\<lparr>c_mqtt := None\<rparr>"

definition isConnectionOpen :: "(nat \<Rightarrow> bool) \<Rightarrow> client \<Rightarrow> bool" where
  "isConnectionOpen is_open c = (case c_mqtt c of None \<Rightarrow> False | Some p \<Rightarrow> is_open p)"

section \<open>The goroutines of Run\<close>

text \<open>
  Where \<open>connectionManager\<close> is: at the top of its loop, in the switch with the values it read under the
  lock, waiting for a connection, in the select, in the wait after a stable connection was lost,
  in the final loop that drains \<open>connectionLost\<close>, or returned. Where \<open>receiveEvents\<close> is: in its
  select, sending on \<open>connectionLost\<close> in \<open>onConnectionLost\<close>, or returned.
\<close>

datatype cm_pc = LoopTop | Switch "nat option" gotime | Connecting nat | Selecting | Spreading | Draining | CmReturned

datatype ev_pc = Receiving | Sending | EvReturned

record run_state =
  r_clock :: gotime
  r_done :: bool
  r_pc :: cm_pc
  r_ev :: ev_pc
  r_cm :: conn_manager
  r_client :: client
  r_next :: nat

text \<open>
  One step of a goroutine, of another caller, or of the environment. A step that reads the clock
  reads times in order, and none before an earlier one: Go measures \<open>time.Since\<close> on the
  monotonic clock. \<open>connectionLost\<close> is not buffered: \<open>receiveEvents\<close> sends when \<open>connectionManager\<close> receives.
\<close>

inductive run_step :: "run_state \<Rightarrow> run_state \<Rightarrow> bool" where
  cancel: "run_step s (s\<lparr>r_done := True\<rparr>)"
| top: "r_pc s = LoopTop \<Longrightarrow> \<not> r_done s \<Longrightarrow>
    run_step s (s\<lparr>r_pc := Switch (c_mqtt (r_client s)) (c_disabledUntil (r_client s)),
      r_client := loop_top (r_cm s) (r_client s)\<rparr>)"
| top_done: "r_pc s = LoopTop \<Longrightarrow> r_done s \<Longrightarrow> run_step s (s\<lparr>r_pc := Draining\<rparr>)"
| disabled: "r_pc s = Switch mqtt until \<Longrightarrow> r_clock s \<le> t \<Longrightarrow> t < until \<Longrightarrow>
    drop_connection (r_cm s) (r_client s) = (m', c') \<Longrightarrow>
    run_step s (s\<lparr>r_clock := t, r_pc := Selecting, r_cm := m', r_client := c'\<rparr>)"
| too_many: "r_pc s = Switch None until \<Longrightarrow> r_clock s \<le> t1 \<Longrightarrow> \<not> t1 < until \<Longrightarrow> t1 \<le> t2 \<Longrightarrow> t2 \<le> t3 \<Longrightarrow>
    too_many_attempts t2 (r_cm s) \<Longrightarrow>
    run_step s (s\<lparr>r_clock := t3, r_pc := LoopTop, r_cm := log_event TooManyErrors (r_cm s),
      r_client := Disable (t3 + jitter) (r_client s)\<rparr>)"
| connect: "r_pc s = Switch None until \<Longrightarrow> r_clock s \<le> t1 \<Longrightarrow> \<not> t1 < until \<Longrightarrow> t1 \<le> t2 \<Longrightarrow> t2 \<le> t3 \<Longrightarrow> t3 \<le> t4 \<Longrightarrow>
    \<not> too_many_attempts t2 (r_cm s) \<Longrightarrow> may_connect t3 (r_cm s) \<Longrightarrow>
    run_step s (s\<lparr>r_clock := t4, r_pc := (if setup_ok then Connecting (r_next s) else LoopTop),
      r_next := Suc (r_next s), r_cm := start_attempt t4 jitter (r_cm s)\<rparr>)"
| too_early: "r_pc s = Switch None until \<Longrightarrow> r_clock s \<le> t1 \<Longrightarrow> \<not> t1 < until \<Longrightarrow> t1 \<le> t2 \<Longrightarrow> t2 \<le> t3 \<Longrightarrow>
    \<not> too_many_attempts t2 (r_cm s) \<Longrightarrow> \<not> may_connect t3 (r_cm s) \<Longrightarrow>
    run_step s (s\<lparr>r_clock := t3, r_pc := Selecting\<rparr>)"
| connected: "r_pc s = Connecting p \<Longrightarrow>
    run_step s (s\<lparr>r_pc := Selecting, r_client := (r_client s)\<lparr>c_mqtt := Some p\<rparr>\<rparr>)"
| connect_failed: "r_pc s = Connecting p \<Longrightarrow>
    run_step s (s\<lparr>r_pc := Selecting, r_cm := connect_failed p authError (r_cm s)\<rparr>)"
| connect_done: "r_pc s = Connecting p \<Longrightarrow> r_done s \<Longrightarrow> run_step s (s\<lparr>r_pc := Draining\<rparr>)"
| ping: "r_pc s = Switch (Some p) until \<Longrightarrow> r_clock s \<le> t1 \<Longrightarrow> \<not> t1 < until \<Longrightarrow> t1 \<le> t2 \<Longrightarrow>
    check_ping t2 ping (r_cm s) (r_client s) = (m', c') \<Longrightarrow>
    run_step s (s\<lparr>r_clock := t2, r_pc := Selecting, r_cm := m', r_client := c'\<rparr>)"
| not_open: "r_pc s = Switch (Some p) until \<Longrightarrow> r_clock s \<le> t1 \<Longrightarrow> \<not> t1 < until \<Longrightarrow>
    run_step s (s\<lparr>r_clock := t1, r_pc := Selecting\<rparr>)"
| select_done: "r_pc s = Selecting \<Longrightarrow> r_done s \<Longrightarrow> run_step s (s\<lparr>r_pc := LoopTop\<rparr>)"
| select_tick: "r_pc s = Selecting \<Longrightarrow> run_step s (s\<lparr>r_pc := LoopTop\<rparr>)"
| select_lost: "r_pc s = Selecting \<Longrightarrow> r_ev s = Sending \<Longrightarrow> r_clock s \<le> t \<Longrightarrow>
    connection_lost t (r_cm s) (r_client s) = (m', c', was_stable) \<Longrightarrow>
    run_step s (s\<lparr>r_clock := t, r_ev := Receiving, r_cm := m', r_client := c',
      r_pc := (if was_stable then Spreading else LoopTop)\<rparr>)"
| spread: "r_pc s = Spreading \<Longrightarrow> run_step s (s\<lparr>r_pc := LoopTop\<rparr>)"
| drain_lost: "r_pc s = Draining \<Longrightarrow> r_ev s = Sending \<Longrightarrow> run_step s (s\<lparr>r_ev := Receiving\<rparr>)"
| drained: "r_pc s = Draining \<Longrightarrow> r_ev s \<noteq> Sending \<Longrightarrow> run_step s (s\<lparr>r_pc := CmReturned\<rparr>)"
| event: "r_ev s = Receiving \<Longrightarrow> run_step s (s\<lparr>r_ev := Sending\<rparr>)"
| event_done: "r_ev s = Receiving \<Longrightarrow> r_done s \<Longrightarrow> run_step s (s\<lparr>r_ev := EvReturned\<rparr>)"
| disable: "run_step s (s\<lparr>r_client := Disable until (r_client s)\<rparr>)"
| disable_notify: "r_pc s = Selecting \<Longrightarrow>
    run_step s (s\<lparr>r_client := Disable until (r_client s), r_pc := LoopTop\<rparr>)"
| force_reconnect: "run_step s (s\<lparr>r_client := ForceReconnect (r_client s)\<rparr>)"
| disconnect: "run_step s (s\<lparr>r_client := Disconnect (r_client s)\<rparr>)"
| report: "run_step s (s\<lparr>r_client := (r_client s)\<lparr>c_lastReport := now\<rparr>\<rparr>)"

definition run_init :: "gotime \<Rightarrow> nat option \<Rightarrow> run_state" where
  "run_init clock reloaded =
     \<lparr>r_clock = clock, r_done = False, r_pc = LoopTop, r_ev = Receiving, r_cm = conn_manager_init,
      r_client = client_New reloaded, r_next = (case reloaded of None \<Rightarrow> 0 | Some p \<Rightarrow> Suc p)\<rparr>"

inductive run_reach :: "run_state \<Rightarrow> bool" where
  init: "run_reach (run_init clock reloaded)"
| step: "run_reach s \<Longrightarrow> run_step s s' \<Longrightarrow> run_reach s'"

text \<open>The times of all the attempts, the oldest first.\<close>

fun attempts :: "conn_event list \<Rightarrow> gotime list" where
  "attempts [] = []"
| "attempts (Attempt t # es) = t # attempts es"
| "attempts (_ # es) = attempts es"

lemma attempts_append [simp]: "attempts (xs @ ys) = attempts xs @ attempts ys"
  by (induction xs rule: attempts.induct) simp_all

definition rate_inv :: "gotime \<Rightarrow> conn_manager \<Rightarrow> bool" where
  "rate_inv clock m \<longleftrightarrow>
     (let a = attempts (cm_log m)
      in cm_lastConnectionTimes m = drop (length a - 20) a \<and> sorted a \<and> (\<forall>t \<in> set a. t \<le> clock) \<and>
         (\<forall>i. i + 7 < length a \<longrightarrow> 10 * minute \<le> a ! (i + 7) - a ! i))"

text \<open>What the steps other than an attempt keep.\<close>

definition same_attempts :: "conn_manager \<Rightarrow> conn_manager \<Rightarrow> bool" where
  "same_attempts m m' \<longleftrightarrow>
     cm_lastConnectionTimes m' = cm_lastConnectionTimes m \<and> attempts (cm_log m') = attempts (cm_log m)"

lemma rate_inv_same: "rate_inv clock m \<Longrightarrow> same_attempts m m' \<Longrightarrow> clock \<le> clock' \<Longrightarrow> rate_inv clock' m'"
  by (fastforce simp: rate_inv_def same_attempts_def Let_def)

lemma same_attempts_refl [simp]: "same_attempts m m"
  by (simp add: same_attempts_def)

lemma log_event_same: "(\<And>t. e \<noteq> Attempt t) \<Longrightarrow> same_attempts m (log_event e m)"
  by (cases e) (auto simp: same_attempts_def log_event_def)

lemma drop_connection_same: "drop_connection m c = (m', c') \<Longrightarrow> same_attempts m m'"
  using log_event_same by (auto simp: drop_connection_def split: option.splits)

lemma check_ping_same: "check_ping t ping m c = (m', c') \<Longrightarrow> same_attempts m m'"
  by (auto simp: check_ping_def Let_def same_attempts_def dest!: drop_connection_same split: if_splits)

lemma connection_lost_same: "connection_lost t m c = (m', c', b) \<Longrightarrow> same_attempts m m'"
  by (auto simp: connection_lost_def Let_def same_attempts_def dest!: drop_connection_same split: if_splits prod.splits)

lemma connect_failed_same: "same_attempts m (connect_failed p b m)"
  by (simp add: connect_failed_def same_attempts_def log_event_def)

lemma start_attempt_times:
  "attempts (cm_log (start_attempt t jitter m)) = attempts (cm_log m) @ [t]"
  "cm_lastConnectionTimes (start_attempt t jitter m) =
     (let l = cm_lastConnectionTimes m @ [t] in if 20 < length l then drop (length l - 20) l else l)"
  by (simp_all add: start_attempt_def log_event_def Let_def)

lemma drop_last_20: "drop (length (a @ [t]) - 20) (a @ [t]) =
    (let l = drop (length a - 20) a @ [t] in if 20 < length l then drop (length l - 20) l else l)"
proof (cases "length a < 20")
  case False
  then have "Suc (length a) - 20 = Suc (length a - 20)" by simp
  then show ?thesis using False by (simp add: Let_def drop_Suc tl_drop [symmetric])
qed (simp add: Let_def)

lemma rate_inv_start:
  assumes "rate_inv clock m" "clock \<le> t2" "t2 \<le> t4" "\<not> too_many_attempts t2 m"
  shows "rate_inv t4 (start_attempt t4 jitter m)"
proof -
  let ?a = "attempts (cm_log m)"
  have l: "cm_lastConnectionTimes m = drop (length ?a - 20) ?a" and srt: "sorted ?a"
    and le: "\<forall>t \<in> set ?a. t \<le> clock" and gap: "\<And>i. i + 7 < length ?a \<Longrightarrow> 10 * minute \<le> ?a ! (i + 7) - ?a ! i"
    using assms(1) by (simp_all add: rate_inv_def Let_def)
  have new: "10 * minute \<le> t4 - ?a ! i" if "i + 7 = length ?a" for i
  proof -
    have "cm_lastConnectionTimes m ! (length (cm_lastConnectionTimes m) - 7) = ?a ! i"
      "7 \<le> length (cm_lastConnectionTimes m)"
      unfolding l using that by (auto simp flip: that)
    then have "\<not> time_sub t2 (?a ! i) < 10 * minute"
      using assms(4) by (simp add: too_many_attempts_def Let_def)
    then have "10 * minute \<le> t2 - ?a ! i" using time_sub_less_iff [of "10 * minute" t2 "?a ! i"] by simp
    then show ?thesis using assms(3) by linarith
  qed
  have "10 * minute \<le> (?a @ [t4]) ! (i + 7) - (?a @ [t4]) ! i" if "i + 7 < length (?a @ [t4])" for i
    using that gap [of i] new [of i] by (cases "i + 7 = length ?a") (auto simp: nth_append)
  moreover have "sorted (?a @ [t4])" using srt le assms(2,3) by (auto simp: sorted_append)
  ultimately show ?thesis
    using le assms(2,3) drop_last_20 [of ?a t4]
    by (auto simp: rate_inv_def Let_def start_attempt_times l)
qed

lemma rate_inv_step: "run_step s s' \<Longrightarrow> rate_inv (r_clock s) (r_cm s) \<Longrightarrow> rate_inv (r_clock s') (r_cm s')"
proof (induction rule: run_step.induct)
  case (connect s until t1 t2 t3 t4 setup_ok jitter)
  then show ?case using rate_inv_start [of "r_clock s" "r_cm s" t2 t4] by simp
qed (auto intro: rate_inv_same log_event_same drop_connection_same check_ping_same connection_lost_same connect_failed_same)

lemma rate_inv_reach: "run_reach s \<Longrightarrow> rate_inv (r_clock s) (r_cm s)"
proof (induction rule: run_reach.induct)
  case (init clock reloaded)
  then show ?case by (simp add: run_init_def conn_manager_init_def rate_inv_def)
qed (rule rate_inv_step)

lemma sorted_window_bound:
  fixes a :: "int list"
  assumes "sorted a" and gap: "\<And>i. i + k < length a \<Longrightarrow> d \<le> a ! (i + k) - a ! i"
  shows "card {i. i < length a \<and> t \<le> a ! i \<and> a ! i < t + d} \<le> k"
proof (rule ccontr)
  let ?I = "{i. i < length a \<and> t \<le> a ! i \<and> a ! i < t + d}"
  assume "\<not> card ?I \<le> k"
  then have ne: "?I \<noteq> {}" by (metis card.empty le0)
  have fin: "finite ?I" by simp
  let ?i = "Min ?I" and ?j = "Max ?I"
  have ij: "?i \<in> ?I" "?j \<in> ?I" using Min_in [OF fin ne] Max_in [OF fin ne] by auto
  have "?I \<subseteq> {?i..?j}" using fin by auto
  then have "card ?I \<le> Suc ?j - ?i" using card_mono [of "{?i..?j}" ?I] by simp
  then have "?i + k \<le> ?j" using \<open>\<not> card ?I \<le> k\<close> by linarith
  then have "d \<le> a ! (?i + k) - a ! ?i" "a ! (?i + k) \<le> a ! ?j"
    using gap [of ?i] ij assms(1) by (auto simp: sorted_iff_nth_mono)
  then show False using ij by auto
qed

text \<open>
  C6 (connection attempts are limited). Whatever the broker, the other goroutines and the callers
  do, at most 7 connection attempts start within any 10 minutes, and the history that is kept
  is that of the last 20 attempts.
\<close>

theorem connection_rate_limit:
  assumes "run_reach s"
  shows "card {i. i < length (attempts (cm_log (r_cm s))) \<and>
           t \<le> attempts (cm_log (r_cm s)) ! i \<and> attempts (cm_log (r_cm s)) ! i < t + 10 * minute} \<le> 7 \<and>
         cm_lastConnectionTimes (r_cm s) =
           drop (length (attempts (cm_log (r_cm s))) - 20) (attempts (cm_log (r_cm s)))"
  using rate_inv_reach [OF assms] sorted_window_bound [of "attempts (cm_log (r_cm s))" 7 "10 * minute" t]
  by (simp add: rate_inv_def Let_def)

definition run_demo :: run_state where
  "run_demo = (run_init 0 None)\<lparr>r_clock := 9, r_pc := Connecting 0, r_next := 1,
     r_client := loop_top conn_manager_init (client_New None),
     r_cm := start_attempt 9 second conn_manager_init\<rparr>"

lemma run_demo_reach: "run_reach run_demo"
proof -
  let ?s = "(run_init 0 None)\<lparr>r_pc := Switch None zero_time, r_client := loop_top conn_manager_init (client_New None)\<rparr>"
  have "run_step (run_init 0 None) ?s"
    using run_step.top [of "run_init 0 None"] by (simp add: run_init_def client_New_def)
  moreover have "run_step ?s run_demo"
    using run_step.connect [where s = ?s and until = zero_time and ?t1.0 = 9 and ?t2.0 = 9 and ?t3.0 = 9 and ?t4.0 = 9
        and setup_ok = True and jitter = second]
    by (simp add: run_init_def run_demo_def conn_manager_init_def too_many_attempts_def may_connect_def)
  ultimately show ?thesis using run_reach.intros by meson
qed

theorem connection_rate_limit_witness:
  "attempts (cm_log (r_cm run_demo)) = [9] \<and>
   cm_lastConnectionTimes (r_cm run_demo) =
     drop (length (attempts (cm_log (r_cm run_demo))) - 20) (attempts (cm_log (r_cm run_demo)))"
  using connection_rate_limit [OF run_demo_reach]
  by (simp add: run_demo_def start_attempt_times conn_manager_init_def)

section \<open>Shutdown\<close>

text \<open>\<open>Run\<close> returns when its goroutines returned.\<close>

definition Run_returned :: "run_state \<Rightarrow> bool" where
  "Run_returned s \<longleftrightarrow> r_pc s = CmReturned \<and> r_ev s = EvReturned"

lemma stuck_step:
  "run_step s s' \<Longrightarrow> r_pc s = CmReturned \<and> r_ev s = Sending \<Longrightarrow> r_pc s' = CmReturned \<and> r_ev s' = Sending"
  by (induction rule: run_step.induct) auto

lemma stuck_star: "run_step\<^sup>*\<^sup>* s s' \<Longrightarrow> r_pc s = CmReturned \<and> r_ev s = Sending \<Longrightarrow> r_pc s' = CmReturned \<and> r_ev s' = Sending"
  by (induction rule: rtranclp_induct) (simp_all add: stuck_step)

text \<open>
  C33 (a shutdown can hang). After the context is done, \<open>connectionManager\<close> may drain \<open>connectionLost\<close>
  and return before \<open>receiveEvents\<close> takes a last event and sends on that channel. Nobody receives then,
  so in every later state \<open>receiveEvents\<close> is still sending and \<open>Run\<close> has not returned.
\<close>

theorem Run_can_hang:
  "\<exists>s. run_reach s \<and> r_done s \<and> \<not> (\<exists>s'. run_step\<^sup>*\<^sup>* s s' \<and> Run_returned s')"
proof -
  let ?s1 = "(run_init 0 None)\<lparr>r_done := True\<rparr>"
  let ?s2 = "?s1\<lparr>r_pc := Draining\<rparr>"
  let ?s3 = "?s2\<lparr>r_pc := CmReturned\<rparr>"
  let ?s4 = "?s3\<lparr>r_ev := Sending\<rparr>"
  have "run_reach ?s1" by (rule run_reach.step [OF run_reach.init run_step.cancel])
  then have "run_reach ?s2" by (rule run_reach.step) (rule run_step.top_done; simp add: run_init_def)
  then have "run_reach ?s3" by (rule run_reach.step) (rule run_step.drained; simp add: run_init_def)
  then have "run_reach ?s4" by (rule run_reach.step) (rule run_step.event; simp add: run_init_def)
  moreover have "\<not> Run_returned s'" if "run_step\<^sup>*\<^sup>* ?s4 s'" for s'
    using stuck_star [OF that] by (simp add: Run_returned_def)
  ultimately show ?thesis by (intro exI [of _ ?s4]) auto
qed

end
