(* ===== verification/Fifo.thy ===== *)
theory Fifo
  imports Prelude
begin

text \<open>
  The queue of pending MQTT messages (\<^verbatim>\<open>mqtt/client/fifo.go\<close>): a ring buffer with a lock and two
  condition variables. The first part is the buffer as the code updates it under the lock, and
  its refinement of a list. The second part is the step relation of any number of goroutines in
  \<open>Get\<close>, \<open>Put\<close>, \<open>PutNoWait\<close> and \<open>Close\<close>, with the waiting, the signals and the contexts.
\<close>

section \<open>The ring buffer\<close>

record 'a fifo =
  f_size :: nat
  f_queue :: "'a list"
  f_readIdx :: nat
  f_writeIdx :: nat
  f_writeReadDiff :: nat
  f_closed :: bool
  f_zero :: 'a

definition newFifo :: "'a \<Rightarrow> nat \<Rightarrow> 'a fifo" where
  "newFifo zero n =
     \<lparr>f_size = n, f_queue = replicate n zero, f_readIdx = 0, f_writeIdx = 0,
      f_writeReadDiff = 0, f_closed = False, f_zero = zero\<rparr>"

definition fifo_Len :: "'a fifo \<Rightarrow> nat" where
  "fifo_Len f = f_writeReadDiff f"

text \<open>
  The end of \<open>Get\<close> and of \<open>Put\<close>, after the loops that wait: \<open>None\<close> is the panic of an index
  out of range.
\<close>

definition fifo_take :: "'a fifo \<Rightarrow> ('a fifo \<times> 'a) option" where
  "fifo_take f =
     (let r = (if f_readIdx f = f_size f then 0 else f_readIdx f)
      in if r < length (f_queue f)
         then Some (f\<lparr>f_readIdx := Suc r, f_writeReadDiff := f_writeReadDiff f - 1,
                      f_queue := (f_queue f)[r := f_zero f]\<rparr>, f_queue f ! r)
         else None)"

definition fifo_add :: "'a fifo \<Rightarrow> 'a \<Rightarrow> 'a fifo option" where
  "fifo_add f v =
     (let w = (if f_writeIdx f = f_size f then 0 else f_writeIdx f)
      in if w < length (f_queue f)
         then Some (f\<lparr>f_writeIdx := Suc w, f_writeReadDiff := Suc (f_writeReadDiff f),
                      f_queue := (f_queue f)[w := v]\<rparr>)
         else None)"

datatype 'a fifo_result = Panic | Refused | Result 'a

definition PutNoWait :: "'a fifo \<Rightarrow> 'a \<Rightarrow> 'a fifo fifo_result" where
  "PutNoWait f v =
     (if f_closed f then Refused
      else if f_size f \<le> f_writeReadDiff f then Refused
      else (case fifo_add f v of None \<Rightarrow> Panic | Some f' \<Rightarrow> Result f'))"

section \<open>Refinement of a list\<close>

text \<open>
  The next slot to read, reduced to the buffer, is the start of the contents; the next slot to
  write is where they end.
\<close>

definition fifo_list :: "'a fifo \<Rightarrow> 'a list" where
  "fifo_list f =
     map (\<lambda>i. f_queue f ! ((f_readIdx f + i) mod f_size f)) [0..<f_writeReadDiff f]"

definition fifo_inv :: "'a fifo \<Rightarrow> bool" where
  "fifo_inv f \<longleftrightarrow>
     0 < f_size f \<and> length (f_queue f) = f_size f \<and> f_writeReadDiff f \<le> f_size f \<and>
     f_readIdx f \<le> f_size f \<and> f_writeIdx f \<le> f_size f \<and>
     f_writeIdx f mod f_size f = (f_readIdx f + f_writeReadDiff f) mod f_size f"

lemma wrap_index: "i \<le> n \<Longrightarrow> 0 < n \<Longrightarrow> (if i = n then 0 else i) = i mod n" for n :: nat
  by auto

lemma newFifo_inv: "0 < n \<Longrightarrow> fifo_inv (newFifo zero n) \<and> fifo_list (newFifo zero n) = []"
  by (simp add: newFifo_def fifo_inv_def fifo_list_def)

lemma fifo_list_length [simp]: "length (fifo_list f) = f_writeReadDiff f"
  by (simp add: fifo_list_def)

lemma mod_add_inj:
  fixes n :: nat
  assumes "(r + i) mod n = (r + j) mod n" "i < n" "j < n"
  shows "i = j"
proof -
  have "i = j" if "(r + i) mod n = (r + j) mod n" "j \<le> i" "i < n" for i j
  proof -
    have "n dvd i - j" using that mod_eq_dvd_iff_nat [of "r + j" "r + i" n] by simp
    then have "i - j = 0" using that(3) nat_dvd_not_less [of "i - j" n] by linarith
    then show ?thesis using that(2) by simp
  qed
  from this [of i j] this [of j i] assms show ?thesis by (metis nle_le)
qed

lemma fifo_add_refines:
  assumes "fifo_inv f" "f_writeReadDiff f < f_size f"
  shows "\<exists>f'. fifo_add f v = Some f' \<and> fifo_inv f' \<and> fifo_list f' = fifo_list f @ [v] \<and>
           f_size f' = f_size f \<and> f_closed f' = f_closed f"
proof -
  let ?n = "f_size f" and ?d = "f_writeReadDiff f"
  have n: "0 < ?n" "length (f_queue f) = ?n" "f_readIdx f \<le> ?n" "f_writeIdx f \<le> ?n"
    and w: "f_writeIdx f mod ?n = (f_readIdx f + ?d) mod ?n"
    using assms(1) by (simp_all add: fifo_inv_def)
  let ?w = "f_writeIdx f mod ?n"
  let ?f = "f\<lparr>f_writeIdx := Suc ?w, f_writeReadDiff := Suc ?d, f_queue := (f_queue f)[?w := v]\<rparr>"
  have add: "fifo_add f v = Some ?f"
    using n by (simp add: fifo_add_def wrap_index Let_def)
  have lt: "?w < ?n" using n by simp
  have "Suc ?w mod ?n = (f_readIdx f + Suc ?d) mod ?n" using w by (simp add: mod_Suc_eq)
  then have inv: "fifo_inv ?f" using assms n Suc_leI [OF lt] by (simp add: fifo_inv_def)
  have "fifo_list ?f = fifo_list f @ [v]"
  proof (rule nth_equalityI)
    fix i assume "i < length (fifo_list ?f)"
    then have i: "i < Suc ?d" by simp
    have other: "(f_readIdx f + i) mod ?n \<noteq> ?w" if "i < ?d"
      using mod_add_inj [of "f_readIdx f" i ?n ?d] that assms(2) unfolding w by auto
    show "fifo_list ?f ! i = (fifo_list f @ [v]) ! i"
      using i other lt n w
      by (cases "i < ?d") (auto simp: fifo_list_def nth_append less_Suc_eq)
  qed simp
  then show ?thesis using add inv by auto
qed

lemma fifo_take_refines:
  assumes "fifo_inv f" "0 < f_writeReadDiff f"
  shows "\<exists>f' v. fifo_take f = Some (f', v) \<and> fifo_inv f' \<and> fifo_list f = v # fifo_list f' \<and>
           f_size f' = f_size f \<and> f_closed f' = f_closed f"
proof -
  let ?n = "f_size f" and ?d = "f_writeReadDiff f"
  have n: "0 < ?n" "length (f_queue f) = ?n" "f_readIdx f \<le> ?n" "f_writeIdx f \<le> ?n" "?d \<le> ?n"
    and w: "f_writeIdx f mod ?n = (f_readIdx f + ?d) mod ?n"
    using assms(1) by (simp_all add: fifo_inv_def)
  let ?r = "f_readIdx f mod ?n"
  let ?f = "f\<lparr>f_readIdx := Suc ?r, f_writeReadDiff := ?d - 1, f_queue := (f_queue f)[?r := f_zero f]\<rparr>"
  have lt: "?r < ?n" using n by simp
  have take: "fifo_take f = Some (?f, f_queue f ! ?r)"
    using n by (simp add: fifo_take_def wrap_index Let_def)
  have shift: "(Suc ?r + i) mod ?n = (f_readIdx f + Suc i) mod ?n" for i
    by (simp add: mod_Suc_eq mod_add_left_eq [symmetric]) (metis add.commute mod_Suc_eq mod_add_right_eq)
  have "f_writeIdx f mod ?n = (Suc ?r + (?d - 1)) mod ?n"
    unfolding shift using w assms(2) by simp
  then have inv: "fifo_inv ?f" using assms n Suc_leI [OF lt] by (simp add: fifo_inv_def)
  have "fifo_list f = f_queue f ! ?r # fifo_list ?f"
  proof (rule nth_equalityI)
    show "length (fifo_list f) = length (f_queue f ! ?r # fifo_list ?f)" using assms(2) by simp
    fix i assume "i < length (fifo_list f)"
    then have i: "i < ?d" by simp
    show "fifo_list f ! i = (f_queue f ! ?r # fifo_list ?f) ! i"
    proof (cases i)
      case 0
      then show ?thesis using i by (simp add: fifo_list_def)
    next
      case (Suc j)
      have "(f_readIdx f + i) mod ?n \<noteq> ?r"
        using mod_add_inj [of "f_readIdx f" i ?n 0] i n(5) Suc by auto
      then show ?thesis
        using i Suc lt n shift [of j] by (simp add: fifo_list_def)
    qed
  qed
  then show ?thesis using take inv by auto
qed

text \<open>
  The contract of a bounded queue and what its clients rely on: it never loses, duplicates or
  reorders an element, and refuses one only when it is full or closed.
\<close>

locale bounded_queue =
  fixes inv :: "'q \<Rightarrow> bool" and contents :: "'q \<Rightarrow> 'a list" and cap :: "'q \<Rightarrow> nat"
    and closed :: "'q \<Rightarrow> bool"
    and put :: "'q \<Rightarrow> 'a \<Rightarrow> 'q fifo_result" and pop :: "'q \<Rightarrow> ('q \<times> 'a) option"
  assumes bound: "inv q \<Longrightarrow> length (contents q) \<le> cap q"
    and put_result: "inv q \<Longrightarrow>
      (if closed q \<or> length (contents q) = cap q then put q v = Refused
       else \<exists>q'. put q v = Result q' \<and> inv q' \<and> contents q' = contents q @ [v] \<and> cap q' = cap q \<and> closed q' = closed q)"
    and pop_result: "inv q \<Longrightarrow> contents q \<noteq> [] \<Longrightarrow>
      \<exists>q' v. pop q = Some (q', v) \<and> inv q' \<and> contents q = v # contents q' \<and> cap q' = cap q \<and> closed q' = closed q"
begin

fun put_all :: "'q \<Rightarrow> 'a list \<Rightarrow> 'q" where
  "put_all q [] = q"
| "put_all q (v # vs) = (case put q v of Result q' \<Rightarrow> put_all q' vs | _ \<Rightarrow> put_all q vs)"

lemma put_all_contents:
  assumes "inv q" "\<not> closed q"
  shows "inv (put_all q vs) \<and>
         contents (put_all q vs) = contents q @ take (cap q - length (contents q)) vs"
  using assms
proof (induction vs arbitrary: q)
  case (Cons v vs)
  show ?case
  proof (cases "length (contents q) = cap q")
    case True
    then show ?thesis using put_result [OF Cons.prems(1), of v] Cons by simp
  next
    case False
    then obtain q' where q': "put q v = Result q'" "inv q'" "contents q' = contents q @ [v]"
      "cap q' = cap q" "closed q' = closed q"
      using put_result [OF Cons.prems(1), of v] Cons.prems(2) by auto
    obtain k where "cap q - length (contents q) = Suc k"
      using bound [OF Cons.prems(1)] False by (cases "cap q - length (contents q)") auto
    then show ?thesis using Cons.IH [of q'] q' Cons.prems(2) by (simp add: diff_Suc)
  qed
qed simp

end

interpretation fifo: bounded_queue fifo_inv fifo_list f_size f_closed PutNoWait fifo_take
proof
  fix q :: "'a fifo" and v :: 'a
  assume inv: "fifo_inv q"
  show "length (fifo_list q) \<le> f_size q" using inv by (simp add: fifo_inv_def)
  show "if f_closed q \<or> length (fifo_list q) = f_size q then PutNoWait q v = Refused
        else \<exists>q'. PutNoWait q v = Result q' \<and> fifo_inv q' \<and> fifo_list q' = fifo_list q @ [v] \<and>
               f_size q' = f_size q \<and> f_closed q' = f_closed q"
  proof (cases "f_closed q \<or> f_writeReadDiff q = f_size q")
    case True
    then show ?thesis by (auto simp: PutNoWait_def)
  next
    case False
    then have "f_writeReadDiff q < f_size q" using inv by (auto simp: fifo_inv_def)
    then show ?thesis
      using fifo_add_refines [OF inv, of v] False by (auto simp: PutNoWait_def)
  qed
  assume "fifo_list q \<noteq> []"
  then have "0 < f_writeReadDiff q" by (metis fifo_list_length length_greater_0_conv)
  then show "\<exists>q' v. fifo_take q = Some (q', v) \<and> fifo_inv q' \<and> fifo_list q = v # fifo_list q' \<and>
      f_size q' = f_size q \<and> f_closed q' = f_closed q"
    using fifo_take_refines [OF inv] by blast
qed

text \<open>
  C28 (the ring buffer is a bounded queue). On a well-formed buffer \<open>PutNoWait\<close> never panics: it
  appends the value to the contents, or refuses it exactly when the queue is closed or full; and
  taking from a queue that is not empty gives the oldest value and leaves the others in order.
\<close>

theorem fifo_refines_queue:
  assumes "fifo_inv f"
  shows "(if f_closed f \<or> length (fifo_list f) = f_size f then PutNoWait f v = Refused
          else \<exists>f'. PutNoWait f v = Result f' \<and> fifo_inv f' \<and> fifo_list f' = fifo_list f @ [v]) \<and>
         (if fifo_list f = [] then fifo_Len f = 0
          else \<exists>f' x. fifo_take f = Some (f', x) \<and> fifo_inv f' \<and> fifo_list f = x # fifo_list f')"
proof -
  have "fifo_list f = [] \<Longrightarrow> f_writeReadDiff f = 0" by (metis fifo_list_length list.size(3))
  then show ?thesis
    using fifo.put_result [OF assms, of v] fifo.pop_result [OF assms] by (auto simp: fifo_Len_def)
qed

theorem fifo_refines_queue_witness:
  "\<exists>f'. PutNoWait (newFifo 0 2) (7::nat) = Result f' \<and> fifo_inv f' \<and> fifo_list f' = fifo_list (newFifo 0 2) @ [7]"
proof -
  have "fifo_inv (newFifo (0::nat) 2)" "\<not> f_closed (newFifo (0::nat) 2)" "f_size (newFifo (0::nat) 2) = 2"
    "fifo_list (newFifo (0::nat) 2) = []"
    using newFifo_inv [of 2 "0::nat"] by (simp_all add: newFifo_def)
  with fifo_refines_queue [of "newFifo (0::nat) 2" 7] show ?thesis by simp
qed

section \<open>Goroutines\<close>

text \<open>
  One call of \<open>Get\<close> or \<open>Put\<close>. It tries when it has the lock for the first time (\<open>Ready\<close>) or again
  after it was woken (\<open>Woken\<close>), and sleeps on the condition variable when it cannot proceed.
  \<open>op_cancelled\<close> says that its context is done, and \<open>op_notify\<close> that the goroutine \<open>watchForDone\<close>
  of the call still has to broadcast for that reason. The cancellation of a context reaches
  the derived context in the same step.
\<close>

datatype phase = Ready | Asleep | Woken | Finished

record 'a op =
  op_value :: "'a option"
  op_phase :: phase
  op_cancelled :: bool
  op_notify :: bool

text \<open>\<open>op_value\<close> is the value to put, \<open>None\<close> for a call of \<open>Get\<close>.\<close>

abbreviation (input) is_get :: "'a op \<Rightarrow> bool" where
  "is_get p \<equiv> op_value p = None"

text \<open>
  The shared state: the queue, the calls, and the broadcasts that \<open>Close\<close> still has to make after
  it released the lock. \<open>fs_puts\<close> and \<open>fs_gets\<close> record the values added and returned so far.
\<close>

record 'a fifo_state =
  fs_fifo :: "'a fifo"
  fs_ops :: "'a op list"
  fs_closeFull :: bool
  fs_closeEmpty :: bool
  fs_puts :: "'a list"
  fs_gets :: "'a list"

definition fifo_Close :: "'a fifo \<Rightarrow> 'a fifo" where
  "fifo_Close f = f\<lparr>f_closed := True\<rparr>"

definition wake_all :: "bool \<Rightarrow> 'a op list \<Rightarrow> 'a op list" where
  "wake_all gets ops =
     map (\<lambda>p. if is_get p = gets \<and> op_phase p = Asleep then p\<lparr>op_phase := Woken\<rparr> else p) ops"

text \<open>\<^verbatim>\<open>Signal\<close> wakes one of the calls asleep on the condition variable, if there is one.\<close>

definition signal :: "bool \<Rightarrow> 'a op list \<Rightarrow> 'a op list \<Rightarrow> bool" where
  "signal gets ops ops' \<longleftrightarrow>
     (if \<exists>p \<in> set ops. is_get p = gets \<and> op_phase p = Asleep
      then \<exists>j < length ops. is_get (ops ! j) = gets \<and> op_phase (ops ! j) = Asleep \<and>
             ops' = ops[j := (ops ! j)\<lparr>op_phase := Woken\<rparr>]
      else ops' = ops)"

abbreviation (input) finish :: "'a op list \<Rightarrow> nat \<Rightarrow> 'a op list" where
  "finish ops i \<equiv> ops[i := (ops ! i)\<lparr>op_phase := Finished\<rparr>]"

inductive fifo_step :: "'a fifo_state \<Rightarrow> 'a fifo_state \<Rightarrow> bool" where
  call: "fifo_step s (s\<lparr>fs_ops := fs_ops s @
     [\<lparr>op_value = v, op_phase = Ready, op_cancelled = False, op_notify = False\<rparr>]\<rparr>)"
| give_up: "i < length (fs_ops s) \<Longrightarrow> op_phase (fs_ops s ! i) \<in> {Ready, Woken} \<Longrightarrow>
    f_closed (fs_fifo s) \<or> op_cancelled (fs_ops s ! i) \<Longrightarrow>
    fifo_step s (s\<lparr>fs_ops := finish (fs_ops s) i\<rparr>)"
| sleep_get: "i < length (fs_ops s) \<Longrightarrow> op_phase (fs_ops s ! i) \<in> {Ready, Woken} \<Longrightarrow>
    \<not> f_closed (fs_fifo s) \<Longrightarrow> \<not> op_cancelled (fs_ops s ! i) \<Longrightarrow> is_get (fs_ops s ! i) \<Longrightarrow>
    f_writeReadDiff (fs_fifo s) = 0 \<Longrightarrow>
    fifo_step s (s\<lparr>fs_ops := (fs_ops s)[i := (fs_ops s ! i)\<lparr>op_phase := Asleep\<rparr>]\<rparr>)"
| get: "i < length (fs_ops s) \<Longrightarrow> op_phase (fs_ops s ! i) \<in> {Ready, Woken} \<Longrightarrow>
    \<not> f_closed (fs_fifo s) \<Longrightarrow> \<not> op_cancelled (fs_ops s ! i) \<Longrightarrow> is_get (fs_ops s ! i) \<Longrightarrow>
    0 < f_writeReadDiff (fs_fifo s) \<Longrightarrow> fifo_take (fs_fifo s) = Some (f', v) \<Longrightarrow>
    signal False (finish (fs_ops s) i) ops' \<Longrightarrow>
    fifo_step s (s\<lparr>fs_fifo := f', fs_ops := ops', fs_gets := fs_gets s @ [v]\<rparr>)"
| sleep_put: "i < length (fs_ops s) \<Longrightarrow> op_phase (fs_ops s ! i) \<in> {Ready, Woken} \<Longrightarrow>
    \<not> f_closed (fs_fifo s) \<Longrightarrow> \<not> op_cancelled (fs_ops s ! i) \<Longrightarrow> \<not> is_get (fs_ops s ! i) \<Longrightarrow>
    f_size (fs_fifo s) \<le> f_writeReadDiff (fs_fifo s) \<Longrightarrow>
    fifo_step s (s\<lparr>fs_ops := (fs_ops s)[i := (fs_ops s ! i)\<lparr>op_phase := Asleep\<rparr>]\<rparr>)"
| put: "i < length (fs_ops s) \<Longrightarrow> op_phase (fs_ops s ! i) \<in> {Ready, Woken} \<Longrightarrow>
    \<not> f_closed (fs_fifo s) \<Longrightarrow> \<not> op_cancelled (fs_ops s ! i) \<Longrightarrow> op_value (fs_ops s ! i) = Some v \<Longrightarrow>
    f_writeReadDiff (fs_fifo s) < f_size (fs_fifo s) \<Longrightarrow> fifo_add (fs_fifo s) v = Some f' \<Longrightarrow>
    signal True (finish (fs_ops s) i) ops' \<Longrightarrow>
    fifo_step s (s\<lparr>fs_fifo := f', fs_ops := ops', fs_puts := fs_puts s @ [v]\<rparr>)"
| put_no_wait: "PutNoWait (fs_fifo s) v = Result f' \<Longrightarrow> signal True (fs_ops s) ops' \<Longrightarrow>
    fifo_step s (s\<lparr>fs_fifo := f', fs_ops := ops', fs_puts := fs_puts s @ [v]\<rparr>)"
| cancel: "i < length (fs_ops s) \<Longrightarrow> op_phase (fs_ops s ! i) \<noteq> Finished \<Longrightarrow>
    \<not> op_cancelled (fs_ops s ! i) \<Longrightarrow>
    fifo_step s (s\<lparr>fs_ops := (fs_ops s)[i := (fs_ops s ! i)\<lparr>op_cancelled := True, op_notify := True\<rparr>]\<rparr>)"
| watch: "i < length (fs_ops s) \<Longrightarrow> op_notify (fs_ops s ! i) \<Longrightarrow>
    fifo_step s (s\<lparr>fs_ops := wake_all (is_get (fs_ops s ! i))
        ((fs_ops s)[i := (fs_ops s ! i)\<lparr>op_notify := False\<rparr>])\<rparr>)"
| close_queue: "fifo_step s (s\<lparr>fs_fifo := fifo_Close (fs_fifo s), fs_closeFull := True, fs_closeEmpty := True\<rparr>)"
| close_full: "fs_closeFull s \<Longrightarrow>
    fifo_step s (s\<lparr>fs_ops := wake_all False (fs_ops s), fs_closeFull := False\<rparr>)"
| close_empty: "fs_closeEmpty s \<Longrightarrow>
    fifo_step s (s\<lparr>fs_ops := wake_all True (fs_ops s), fs_closeEmpty := False\<rparr>)"

inductive fifo_reach :: "nat \<Rightarrow> 'a fifo_state \<Rightarrow> bool" for n where
  init: "fifo_reach n \<lparr>fs_fifo = newFifo zero n, fs_ops = [], fs_closeFull = False, fs_closeEmpty = False,
     fs_puts = [], fs_gets = []\<rparr>"
| step: "fifo_reach n s \<Longrightarrow> fifo_step s s' \<Longrightarrow> fifo_reach n s'"

text \<open>How many calls of one kind are asleep, and how many were woken and will proceed.\<close>

definition asleep :: "bool \<Rightarrow> 'a op list \<Rightarrow> nat" where
  "asleep gets ops = length (filter (\<lambda>p. is_get p = gets \<and> op_phase p = Asleep) ops)"

definition woken :: "bool \<Rightarrow> 'a op list \<Rightarrow> nat" where
  "woken gets ops = length (filter (\<lambda>p. is_get p = gets \<and> op_phase p = Woken \<and> \<not> op_cancelled p) ops)"

definition notify :: "bool \<Rightarrow> 'a op list \<Rightarrow> bool" where
  "notify gets ops \<longleftrightarrow> (\<exists>p \<in> set ops. is_get p = gets \<and> op_notify p)"

text \<open>
  \<open>free\<close> is what a sleeping call waits for: values for \<open>Get\<close>, slots for \<open>Put\<close>. No wake-up is lost if
  nobody sleeps, or enough calls were woken for what is free, or a broadcast is on its way.
\<close>

definition no_lost :: "bool \<Rightarrow> nat \<Rightarrow> 'a op list \<Rightarrow> bool" where
  "no_lost gets free ops \<longleftrightarrow> asleep gets ops = 0 \<or> free \<le> woken gets ops \<or> notify gets ops"

definition fifo_state_inv :: "nat \<Rightarrow> 'a fifo_state \<Rightarrow> bool" where
  "fifo_state_inv n s \<longleftrightarrow>
     fifo_inv (fs_fifo s) \<and> f_size (fs_fifo s) = n \<and>
     fs_puts s = fs_gets s @ fifo_list (fs_fifo s) \<and>
     (\<forall>p \<in> set (fs_ops s). op_phase p = Asleep \<and> op_cancelled p \<longrightarrow> op_notify p) \<and>
     (if f_closed (fs_fifo s)
      then (asleep True (fs_ops s) = 0 \<or> fs_closeEmpty s) \<and> (asleep False (fs_ops s) = 0 \<or> fs_closeFull s)
      else no_lost True (f_writeReadDiff (fs_fifo s)) (fs_ops s) \<and>
           no_lost False (n - f_writeReadDiff (fs_fifo s)) (fs_ops s))"

lemma fifo_Close_same [simp]:
  "fifo_inv (fifo_Close f) = fifo_inv f" "fifo_list (fifo_Close f) = fifo_list f"
  "f_size (fifo_Close f) = f_size f" "f_closed (fifo_Close f)"
  by (simp_all add: fifo_Close_def fifo_inv_def fifo_list_def)

lemma filter_update_count:
  assumes "i < length xs"
  shows "length (filter P (xs[i := x])) + (if P (xs ! i) then 1 else 0) =
           length (filter P xs) + (if P x then 1 else 0)"
proof -
  have "xs = take i xs @ xs ! i # drop (Suc i) xs" using assms by (rule id_take_nth_drop)
  then have "length (filter P xs) = length (filter P (take i xs @ xs ! i # drop (Suc i) xs))" by simp
  moreover have "xs[i := x] = take i xs @ x # drop (Suc i) xs" using assms by (rule upd_conv_take_nth_drop)
  ultimately show ?thesis by simp
qed

lemma asleep_update:
  "i < length ops \<Longrightarrow> asleep g (ops[i := p]) + (if is_get (ops ! i) = g \<and> op_phase (ops ! i) = Asleep then 1 else 0) =
     asleep g ops + (if is_get p = g \<and> op_phase p = Asleep then 1 else 0)"
  unfolding asleep_def by (rule filter_update_count)

lemma woken_update:
  "i < length ops \<Longrightarrow> woken g (ops[i := p]) +
       (if is_get (ops ! i) = g \<and> op_phase (ops ! i) = Woken \<and> \<not> op_cancelled (ops ! i) then 1 else 0) =
     woken g ops + (if is_get p = g \<and> op_phase p = Woken \<and> \<not> op_cancelled p then 1 else 0)"
  unfolding woken_def by (rule filter_update_count)

lemma notify_append: "notify g (xs @ p # ys) \<longleftrightarrow> notify g (xs @ ys) \<or> is_get p = g \<and> op_notify p"
  by (auto simp: notify_def)

lemma notify_update:
  assumes "i < length ops" "op_notify p = op_notify (ops ! i)" "is_get p = is_get (ops ! i)"
  shows "notify g (ops[i := p]) = notify g ops"
  unfolding upd_conv_take_nth_drop [OF assms(1)]
  using notify_append [of g "take i ops" "ops ! i" "drop (Suc i) ops"] assms(2,3)
  by (simp add: notify_append id_take_nth_drop [OF assms(1), symmetric])

lemma notify_update_other:
  assumes "i < length ops" "is_get (ops ! i) \<noteq> g" "is_get p \<noteq> g"
  shows "notify g (ops[i := p]) = notify g ops"
  unfolding upd_conv_take_nth_drop [OF assms(1)]
  using notify_append [of g "take i ops" "ops ! i" "drop (Suc i) ops"] assms(2,3)
  by (simp add: notify_append id_take_nth_drop [OF assms(1), symmetric])

lemma asleep_0_iff: "asleep g ops = 0 \<longleftrightarrow> \<not> (\<exists>p \<in> set ops. is_get p = g \<and> op_phase p = Asleep)"
  by (auto simp: asleep_def filter_empty_conv)

lemma no_lost_mono: "no_lost g free ops \<Longrightarrow> free' \<le> free \<Longrightarrow> no_lost g free' ops"
  by (auto simp: no_lost_def)

text \<open>A signal makes up for one more value or slot, and does not touch calls of the other kind.\<close>

lemma signal_no_lost:
  assumes "signal g ops ops'" "\<forall>p \<in> set ops. op_phase p = Asleep \<and> op_cancelled p \<longrightarrow> op_notify p"
    and "no_lost g free ops"
  shows "no_lost g (Suc free) ops'"
proof (cases "\<exists>p \<in> set ops. is_get p = g \<and> op_phase p = Asleep")
  case False
  then show ?thesis using assms(1) by (simp add: signal_def no_lost_def asleep_0_iff)
next
  case True
  then obtain j where j: "j < length ops" "is_get (ops ! j) = g" "op_phase (ops ! j) = Asleep"
    and ops': "ops' = ops[j := (ops ! j)\<lparr>op_phase := Woken\<rparr>]"
    using assms(1) by (auto simp: signal_def)
  have n: "notify g ops' = notify g ops" unfolding ops' using j by (intro notify_update) simp_all
  show ?thesis
  proof (cases "op_cancelled (ops ! j)")
    case True
    then have "notify g ops" using assms(2) j by (auto simp: notify_def)
    then show ?thesis using n by (simp add: no_lost_def)
  next
    case False
    have "asleep g ops \<noteq> 0" using \<open>\<exists>p \<in> set ops. is_get p = g \<and> op_phase p = Asleep\<close> by (simp add: asleep_0_iff)
    moreover have "woken g ops' = Suc (woken g ops)"
      using woken_update [OF j(1), of g "(ops ! j)\<lparr>op_phase := Woken\<rparr>"] j False by (simp add: ops')
    ultimately show ?thesis using assms(3) n by (auto simp: no_lost_def)
  qed
qed

lemma signal_other:
  assumes "signal g ops ops'" "g' \<noteq> g"
  shows "no_lost g' free ops' = no_lost g' free ops"
proof (cases "ops' = ops")
  case False
  then obtain j where j: "j < length ops" "is_get (ops ! j) = g" "op_phase (ops ! j) = Asleep"
    and ops': "ops' = ops[j := (ops ! j)\<lparr>op_phase := Woken\<rparr>]"
    using assms(1) by (auto simp: signal_def split: if_splits)
  have "notify g' ops' = notify g' ops" unfolding ops' using j by (intro notify_update) simp_all
  moreover have "asleep g' ops' = asleep g' ops" "woken g' ops' = woken g' ops"
    using asleep_update [OF j(1), of g' "(ops ! j)\<lparr>op_phase := Woken\<rparr>"]
      woken_update [OF j(1), of g' "(ops ! j)\<lparr>op_phase := Woken\<rparr>"] j assms(2)
    by (auto simp: ops')
  ultimately show ?thesis by (simp add: no_lost_def)
qed simp

abbreviation (input) sleepers_ok :: "'a op list \<Rightarrow> bool" where
  "sleepers_ok ops \<equiv> \<forall>p \<in> set ops. op_phase p = Asleep \<and> op_cancelled p \<longrightarrow> op_notify p"

lemma sleepers_ok_update:
  assumes "sleepers_ok ops" "op_phase p = Asleep \<and> op_cancelled p \<longrightarrow> op_notify p"
  shows "sleepers_ok (ops[i := p])"
  using assms set_update_subset_insert [of ops i p] by blast

lemma signal_sleepers:
  assumes "signal g ops ops'" "sleepers_ok ops"
  shows "sleepers_ok ops'"
proof (cases "ops' = ops")
  case False
  then obtain j where "ops' = ops[j := (ops ! j)\<lparr>op_phase := Woken\<rparr>]"
    using assms(1) by (auto simp: signal_def split: if_splits)
  moreover have "sleepers_ok (ops[j := (ops ! j)\<lparr>op_phase := Woken\<rparr>])"
    using assms(2) by (rule sleepers_ok_update) simp
  ultimately show ?thesis by simp
qed (use assms in simp)

text \<open>A call that proceeds: one fewer may be woken.\<close>

lemma finish_counts:
  assumes "i < length ops" "op_phase (ops ! i) \<in> {Ready, Woken}"
  shows "asleep g (finish ops i) = asleep g ops" "woken g ops \<le> Suc (woken g (finish ops i))"
    "notify g (finish ops i) = notify g ops"
    "is_get (ops ! i) \<noteq> g \<or> op_cancelled (ops ! i) \<Longrightarrow> woken g (finish ops i) = woken g ops"
proof -
  let ?p = "(ops ! i)\<lparr>op_phase := Finished\<rparr>"
  note w = woken_update [OF assms(1), of g ?p]
  show "asleep g (finish ops i) = asleep g ops" using asleep_update [OF assms(1), of g ?p] assms(2) by auto
  show "woken g ops \<le> Suc (woken g (finish ops i))" using w by (simp split: if_splits)
  show "notify g (finish ops i) = notify g ops" using notify_update [OF assms(1), of ?p] by simp
  show "is_get (ops ! i) \<noteq> g \<or> op_cancelled (ops ! i) \<Longrightarrow> woken g (finish ops i) = woken g ops"
    using w by (simp split: if_splits)
qed

lemma finish_no_lost:
  assumes "i < length ops" "op_phase (ops ! i) \<in> {Ready, Woken}" "no_lost g (Suc free) ops"
  shows "no_lost g free (finish ops i)"
  using finish_counts(1-3) [OF assms(1,2), of g] assms(3) by (auto simp: no_lost_def)

lemma finish_other:
  assumes "i < length ops" "op_phase (ops ! i) \<in> {Ready, Woken}" "is_get (ops ! i) \<noteq> g \<or> op_cancelled (ops ! i)"
  shows "no_lost g free (finish ops i) = no_lost g free ops"
  using finish_counts [OF assms(1,2), of g] assms(3) by (simp add: no_lost_def)

lemma sleep_no_lost:
  assumes "i < length ops" "op_phase (ops ! i) \<in> {Ready, Woken}" "is_get (ops ! i) = g'" "no_lost g free ops"
    "g = g' \<Longrightarrow> free = 0"
  shows "no_lost g free (ops[i := (ops ! i)\<lparr>op_phase := Asleep\<rparr>])"
proof (cases "g = g'")
  case True
  then show ?thesis using assms(5) by (simp add: no_lost_def)
next
  case False
  let ?p = "(ops ! i)\<lparr>op_phase := Asleep\<rparr>"
  have "asleep g (ops[i := ?p]) = asleep g ops" "woken g (ops[i := ?p]) = woken g ops"
    "notify g (ops[i := ?p]) = notify g ops"
    using asleep_update [OF assms(1), of g ?p] woken_update [OF assms(1), of g ?p]
      notify_update [OF assms(1), of ?p g] assms(2,3) False by auto
  then show ?thesis using assms(4) by (simp add: no_lost_def)
qed

lemma wake_all_counts:
  "asleep g (wake_all g ops) = 0" "g' \<noteq> g \<Longrightarrow> asleep g' (wake_all g ops) = asleep g' ops"
  "g' \<noteq> g \<Longrightarrow> woken g' (wake_all g ops) = woken g' ops" "notify g' (wake_all g ops) = notify g' ops"
  "sleepers_ok ops \<Longrightarrow> sleepers_ok (wake_all g ops)"
proof -
  show "asleep g (wake_all g ops) = 0" by (auto simp: asleep_0_iff wake_all_def)
  show "g' \<noteq> g \<Longrightarrow> asleep g' (wake_all g ops) = asleep g' ops"
    "g' \<noteq> g \<Longrightarrow> woken g' (wake_all g ops) = woken g' ops"
    by (induction ops) (auto simp: asleep_def woken_def wake_all_def)
  show "notify g' (wake_all g ops) = notify g' ops"
    by (induction ops) (auto simp: notify_def wake_all_def)
  show "sleepers_ok ops \<Longrightarrow> sleepers_ok (wake_all g ops)" by (auto simp: wake_all_def)
qed

lemma cancel_no_lost:
  assumes "i < length ops" "no_lost g free ops"
  shows "no_lost g free (ops[i := (ops ! i)\<lparr>op_cancelled := True, op_notify := True\<rparr>])"
proof (cases "is_get (ops ! i) = g")
  case True
  then have "notify g (ops[i := (ops ! i)\<lparr>op_cancelled := True, op_notify := True\<rparr>])"
    unfolding notify_def by (intro bexI [OF _ set_update_memI [OF assms(1)]]) simp
  then show ?thesis by (simp add: no_lost_def)
next
  case False
  let ?p = "(ops ! i)\<lparr>op_cancelled := True, op_notify := True\<rparr>"
  have "asleep g (ops[i := ?p]) = asleep g ops" "woken g (ops[i := ?p]) = woken g ops"
    using asleep_update [OF assms(1), of g ?p] woken_update [OF assms(1), of g ?p] False by auto
  moreover have "notify g (ops[i := ?p]) = notify g ops"
    using assms(1) False by (intro notify_update_other) simp_all
  ultimately show ?thesis using assms(2) by (simp add: no_lost_def)
qed

lemma watch_asleep:
  assumes "i < length ops"
  shows "asleep g (wake_all (is_get (ops ! i)) (ops[i := (ops ! i)\<lparr>op_notify := False\<rparr>])) \<le> asleep g ops"
  using asleep_update [OF assms, of g "(ops ! i)\<lparr>op_notify := False\<rparr>"]
  by (cases "g = is_get (ops ! i)") (auto simp: wake_all_counts)

lemma watch_no_lost:
  assumes "i < length ops" "no_lost g free ops"
  shows "no_lost g free (wake_all (is_get (ops ! i)) (ops[i := (ops ! i)\<lparr>op_notify := False\<rparr>]))"
proof (cases "is_get (ops ! i) = g")
  case True
  then show ?thesis by (simp add: no_lost_def wake_all_counts)
next
  case False
  let ?p = "(ops ! i)\<lparr>op_notify := False\<rparr>"
  have "asleep g (ops[i := ?p]) = asleep g ops" "woken g (ops[i := ?p]) = woken g ops"
    using asleep_update [OF assms(1), of g ?p] woken_update [OF assms(1), of g ?p] False by auto
  moreover have "notify g (ops[i := ?p]) = notify g ops"
    using assms(1) False by (intro notify_update_other) simp_all
  ultimately show ?thesis
    using assms(2) False wake_all_counts(2-4) [of g "is_get (ops ! i)" "ops[i := ?p]"] by (auto simp: no_lost_def)
qed

lemma watch_sleepers:
  assumes "sleepers_ok ops"
  shows "sleepers_ok (wake_all (is_get (ops ! i)) (ops[i := (ops ! i)\<lparr>op_notify := False\<rparr>]))"
proof
  let ?p = "(ops ! i)\<lparr>op_notify := False\<rparr>"
  fix q assume "q \<in> set (wake_all (is_get (ops ! i)) (ops[i := ?p]))"
  then obtain r where r0: "r \<in> set (ops[i := ?p])"
    and q: "q = (if is_get r = is_get (ops ! i) \<and> op_phase r = Asleep then r\<lparr>op_phase := Woken\<rparr> else r)"
    unfolding wake_all_def set_map by (rule imageE)
  have r: "r \<in> insert ?p (set ops)" using r0 set_update_subset_insert [of ops i ?p] by (rule set_mp [rotated])
  show "op_phase q = Asleep \<and> op_cancelled q \<longrightarrow> op_notify q"
    using r q assms by (cases "r = ?p") (auto split: if_splits)
qed

lemma fifo_state_inv_added:
  assumes "fifo_state_inv n s" "\<not> f_closed (fs_fifo s)" "fifo_add (fs_fifo s) v = Some f'"
    and "f_writeReadDiff (fs_fifo s) < n" "sleepers_ok ops"
    and lost: "no_lost False (n - Suc (f_writeReadDiff (fs_fifo s))) ops" "no_lost True (f_writeReadDiff (fs_fifo s)) ops"
    and signal: "signal True ops ops'"
  shows "fifo_state_inv n (s\<lparr>fs_fifo := f', fs_ops := ops', fs_puts := fs_puts s @ [v]\<rparr>)"
proof -
  obtain f: "fifo_inv f'" "fifo_list f' = fifo_list (fs_fifo s) @ [v]" "f_size f' = n" "\<not> f_closed f'"
    using fifo_add_refines [of "fs_fifo s" v] assms(1-4) by (auto simp: fifo_state_inv_def)
  have d: "f_writeReadDiff f' = Suc (f_writeReadDiff (fs_fifo s))"
    using arg_cong [OF f(2), of length] by simp
  have "no_lost False (n - f_writeReadDiff f') ops'" using signal_other [OF signal, of False] lost(1) d by simp
  moreover have "no_lost True (f_writeReadDiff f') ops'"
    using signal_no_lost [OF signal assms(5) lost(2)] d by simp
  ultimately show ?thesis using assms(1) f signal_sleepers [OF signal assms(5)]
    by (simp add: fifo_state_inv_def)
qed

lemma fifo_state_inv_taken:
  assumes "fifo_state_inv n s" "\<not> f_closed (fs_fifo s)" "fifo_take (fs_fifo s) = Some (f', v)"
    and "0 < f_writeReadDiff (fs_fifo s)" "sleepers_ok ops"
    and lost: "no_lost True (f_writeReadDiff (fs_fifo s) - 1) ops" "no_lost False (n - f_writeReadDiff (fs_fifo s)) ops"
    and signal: "signal False ops ops'"
  shows "fifo_state_inv n (s\<lparr>fs_fifo := f', fs_ops := ops', fs_gets := fs_gets s @ [v]\<rparr>)"
proof -
  obtain f: "fifo_inv f'" "fifo_list (fs_fifo s) = v # fifo_list f'" "f_size f' = n" "\<not> f_closed f'"
    using fifo_take_refines [of "fs_fifo s"] assms(1-4) by (auto simp: fifo_state_inv_def)
  have d: "f_writeReadDiff (fs_fifo s) = Suc (f_writeReadDiff f')"
    using arg_cong [OF f(2), of length] by simp
  have le: "f_writeReadDiff (fs_fifo s) \<le> n" using assms(1) by (auto simp: fifo_state_inv_def fifo_inv_def)
  have "no_lost True (f_writeReadDiff f') ops'" using signal_other [OF signal, of True] lost(1) d by simp
  moreover have "no_lost False (n - f_writeReadDiff f') ops'"
    using signal_no_lost [OF signal assms(5) lost(2)] d le by (simp add: Suc_diff_Suc)
  ultimately show ?thesis using assms(1) f signal_sleepers [OF signal assms(5)]
    by (simp add: fifo_state_inv_def)
qed

lemma fifo_state_inv_step:
  assumes "fifo_step s s'" "fifo_state_inv n s"
  shows "fifo_state_inv n s'"
  using assms
proof (cases rule: fifo_step.cases)
  case (call v)
  let ?ops = "fs_ops s @ [\<lparr>op_value = v, op_phase = Ready, op_cancelled = False, op_notify = False\<rparr>]"
  have "asleep g ?ops = asleep g (fs_ops s)" "no_lost g free ?ops = no_lost g free (fs_ops s)" for g free
    by (simp_all add: no_lost_def asleep_def woken_def notify_def)
  then show ?thesis using assms(2) unfolding call by (simp add: fifo_state_inv_def)
next
  case (give_up i)
  let ?ops = "finish (fs_ops s) i"
  have "sleepers_ok ?ops" using assms(2) by (intro sleepers_ok_update) (simp_all add: fifo_state_inv_def)
  moreover have "\<not> f_closed (fs_fifo s) \<Longrightarrow> no_lost g free ?ops = no_lost g free (fs_ops s)" for g free
    using give_up by (intro finish_other) auto
  moreover have "asleep g ?ops = asleep g (fs_ops s)" for g
    using give_up by (intro finish_counts) auto
  ultimately show ?thesis using assms(2) unfolding give_up(1) by (simp add: fifo_state_inv_def)
next
  case (sleep_get i)
  let ?ops = "(fs_ops s)[i := (fs_ops s ! i)\<lparr>op_phase := Asleep\<rparr>]"
  have "sleepers_ok ?ops" using assms(2) sleep_get(5)
    by (intro sleepers_ok_update) (simp_all add: fifo_state_inv_def)
  moreover have "no_lost True 0 ?ops" by (simp add: no_lost_def)
  moreover have "no_lost False n ?ops"
    using sleep_get assms(2) by (intro sleep_no_lost) (auto simp: fifo_state_inv_def)
  ultimately show ?thesis using assms(2) sleep_get(4,7) unfolding sleep_get(1)
    by (simp add: fifo_state_inv_def)
next
  case (get i f' v ops')
  let ?fin = "finish (fs_ops s) i" and ?d = "f_writeReadDiff (fs_fifo s)"
  have ok: "sleepers_ok ?fin" using assms(2) by (intro sleepers_ok_update) (simp_all add: fifo_state_inv_def)
  have l1: "no_lost True (?d - 1) ?fin"
    using get(2,3,4,7) assms(2) by (intro finish_no_lost) (auto simp: fifo_state_inv_def)
  have l2: "no_lost False (n - ?d) ?fin"
    using get(2-6) assms(2) finish_other [of i "fs_ops s" False] by (simp add: fifo_state_inv_def)
  show ?thesis unfolding get(1) using assms(2) get(4,8,7) ok l1 l2 get(9) by (rule fifo_state_inv_taken)
next
  case (sleep_put i)
  let ?ops = "(fs_ops s)[i := (fs_ops s ! i)\<lparr>op_phase := Asleep\<rparr>]"
  have full: "n - f_writeReadDiff (fs_fifo s) = 0" using sleep_put(7) assms(2) by (simp add: fifo_state_inv_def)
  have "sleepers_ok ?ops" using assms(2) sleep_put(5)
    by (intro sleepers_ok_update) (simp_all add: fifo_state_inv_def)
  moreover have "no_lost False 0 ?ops" by (simp add: no_lost_def)
  moreover have "no_lost True (f_writeReadDiff (fs_fifo s)) ?ops"
    using sleep_put assms(2) by (intro sleep_no_lost) (auto simp: fifo_state_inv_def fifo_inv_def)
  ultimately show ?thesis using assms(2) sleep_put(4) full unfolding sleep_put(1)
    by (simp add: fifo_state_inv_def)
next
  case (put i v f' ops')
  let ?fin = "finish (fs_ops s) i" and ?d = "f_writeReadDiff (fs_fifo s)"
  have lt: "?d < n" using put(7) assms(2) by (simp add: fifo_state_inv_def)
  have ok: "sleepers_ok ?fin" using assms(2) by (intro sleepers_ok_update) (simp_all add: fifo_state_inv_def)
  have l1: "no_lost False (n - Suc ?d) ?fin"
    using put(2,3,4) assms(2) lt by (intro finish_no_lost) (simp_all add: fifo_state_inv_def Suc_diff_Suc)
  have l2: "no_lost True ?d ?fin"
    using put(2-6) assms(2) finish_other [of i "fs_ops s" True] by (simp add: fifo_state_inv_def)
  show ?thesis unfolding put(1) using assms(2) put(4,8) lt ok l1 l2 put(9) by (rule fifo_state_inv_added)
next
  case (put_no_wait v f' ops')
  let ?d = "f_writeReadDiff (fs_fifo s)"
  have o: "\<not> f_closed (fs_fifo s)" "fifo_add (fs_fifo s) v = Some f'" "?d < n"
    using put_no_wait(2) assms(2) by (auto simp: PutNoWait_def fifo_state_inv_def split: if_splits option.splits)
  have "no_lost False (n - ?d) (fs_ops s)" using assms(2) o(1) by (simp add: fifo_state_inv_def)
  then have l1: "no_lost False (n - Suc ?d) (fs_ops s)" by (rule no_lost_mono) simp
  have ok: "sleepers_ok (fs_ops s)" and l2: "no_lost True ?d (fs_ops s)"
    using assms(2) o(1) by (simp_all add: fifo_state_inv_def)
  show ?thesis unfolding put_no_wait(1) using assms(2) o ok l1 l2 put_no_wait(3) by (rule fifo_state_inv_added)
next
  case (cancel i)
  let ?p = "(fs_ops s ! i)\<lparr>op_cancelled := True, op_notify := True\<rparr>"
  let ?ops = "(fs_ops s)[i := ?p]"
  have "sleepers_ok ?ops" using assms(2) by (intro sleepers_ok_update) (simp_all add: fifo_state_inv_def)
  moreover have "asleep g ?ops = asleep g (fs_ops s)" for g
    using asleep_update [OF cancel(2), of g ?p] by simp
  moreover have "no_lost g free (fs_ops s) \<Longrightarrow> no_lost g free ?ops" for g free
    using cancel(2) by (rule cancel_no_lost)
  ultimately show ?thesis using assms(2) unfolding cancel(1) by (simp add: fifo_state_inv_def)
next
  case (watch i)
  let ?p = "(fs_ops s ! i)\<lparr>op_notify := False\<rparr>" and ?g = "is_get (fs_ops s ! i)"
  let ?ops = "wake_all ?g ((fs_ops s)[i := ?p])"
  have "sleepers_ok ?ops" using assms(2) by (intro watch_sleepers) (simp_all add: fifo_state_inv_def)
  moreover have "asleep g (fs_ops s) = 0 \<Longrightarrow> asleep g ?ops = 0" for g
    using watch_asleep [OF watch(2), of g] by simp
  moreover have "no_lost g free (fs_ops s) \<Longrightarrow> no_lost g free ?ops" for g free
    using watch(2) by (rule watch_no_lost)
  ultimately show ?thesis using assms(2) unfolding watch(1)
    by (auto simp: fifo_state_inv_def split: if_splits)
next
  case close_queue
  then show ?thesis using assms(2)
    by (simp add: fifo_state_inv_def)
next
  case close_full
  have "sleepers_ok (wake_all False (fs_ops s))"
    using assms(2) by (intro wake_all_counts) (simp add: fifo_state_inv_def)
  then show ?thesis using assms(2) unfolding close_full(1)
    by (simp add: fifo_state_inv_def no_lost_def wake_all_counts split: if_splits)
next
  case close_empty
  have "sleepers_ok (wake_all True (fs_ops s))"
    using assms(2) by (intro wake_all_counts) (simp add: fifo_state_inv_def)
  then show ?thesis using assms(2) unfolding close_empty(1)
    by (simp add: fifo_state_inv_def no_lost_def wake_all_counts split: if_splits)
qed

lemma fifo_reach_inv: "fifo_reach n s \<Longrightarrow> 0 < n \<Longrightarrow> fifo_state_inv n s"
proof (induction rule: fifo_reach.induct)
  case (init zero)
  then show ?case using newFifo_inv [of n zero]
    by (simp add: fifo_state_inv_def no_lost_def asleep_def) (simp add: newFifo_def)
next
  case (step s s')
  then show ?case using fifo_state_inv_step by blast
qed

text \<open>
  C12 (no value is lost, doubled or reordered). Whatever the interleaving of the goroutines, the
  values returned by \<open>Get\<close> followed by the contents of the queue are the values added, in order; at
  most \<open>n\<close> values wait; and a call that passes its loop does not index out of range.
\<close>

theorem fifo_order:
  assumes "fifo_reach n s" "0 < n"
  shows "fs_puts s = fs_gets s @ fifo_list (fs_fifo s) \<and> length (fifo_list (fs_fifo s)) \<le> n \<and>
         (fifo_Len (fs_fifo s) < n \<longrightarrow> fifo_add (fs_fifo s) v \<noteq> None) \<and>
         (0 < fifo_Len (fs_fifo s) \<longrightarrow> fifo_take (fs_fifo s) \<noteq> None)"
proof -
  have i: "fifo_inv (fs_fifo s)" "f_size (fs_fifo s) = n" "fs_puts s = fs_gets s @ fifo_list (fs_fifo s)"
    using fifo_reach_inv [OF assms] by (simp_all add: fifo_state_inv_def)
  show ?thesis
    using i fifo_add_refines [OF i(1), of v] fifo_take_refines [OF i(1)]
    by (auto simp: fifo_Len_def fifo_inv_def)
qed

text \<open>
  C5 (no wake-up is lost). When no woken call, no broadcast of a cancelled context and no broadcast
  of \<open>Close\<close> is pending, a call of \<open>Get\<close> that is still asleep waits on an open empty queue, a call of
  \<open>Put\<close> that is still asleep waits on an open full one, and the context of neither is done.
\<close>

theorem fifo_no_lost_wakeup:
  assumes "fifo_reach n s" "0 < n" "p \<in> set (fs_ops s)" "op_phase p = Asleep"
    and "\<forall>q \<in> set (fs_ops s). op_phase q \<noteq> Woken \<and> \<not> op_notify q" "\<not> fs_closeFull s" "\<not> fs_closeEmpty s"
  shows "\<not> f_closed (fs_fifo s) \<and> \<not> op_cancelled p \<and>
         length (fifo_list (fs_fifo s)) = (if op_value p = None then 0 else n)"
proof -
  have inv: "fifo_state_inv n s" using fifo_reach_inv assms(1,2) by blast
  have "asleep (op_value p = None) (fs_ops s) \<noteq> 0" using assms(3,4) by (auto simp: asleep_0_iff)
  moreover have "woken g (fs_ops s) = 0" "\<not> notify g (fs_ops s)" for g
    using assms(5) by (auto simp: woken_def notify_def filter_empty_conv)
  moreover have "f_writeReadDiff (fs_fifo s) \<le> n" using inv by (auto simp: fifo_state_inv_def fifo_inv_def)
  ultimately show ?thesis using inv assms
    by (cases "op_value p = None") (auto simp: fifo_state_inv_def no_lost_def split: if_splits)
qed

definition fifo_demo :: "nat fifo_state" where
  "fifo_demo = \<lparr>fs_fifo = newFifo 0 2, fs_ops = [\<lparr>op_value = None, op_phase = Asleep, op_cancelled = False, op_notify = False\<rparr>],
     fs_closeFull = False, fs_closeEmpty = False, fs_puts = [], fs_gets = []\<rparr>"

lemma fifo_demo_reach: "fifo_reach 2 fifo_demo"
proof -
  let ?s0 = "\<lparr>fs_fifo = newFifo (0::nat) 2, fs_ops = [], fs_closeFull = False, fs_closeEmpty = False, fs_puts = [], fs_gets = []\<rparr>"
  let ?s1 = "?s0\<lparr>fs_ops := [\<lparr>op_value = None, op_phase = Ready, op_cancelled = False, op_notify = False\<rparr>]\<rparr>"
  have "fifo_reach 2 ?s1" using fifo_reach.step [OF fifo_reach.init fifo_step.call [of ?s0 None]] by simp
  moreover have "fifo_step ?s1 fifo_demo"
    using fifo_step.sleep_get [of 0 ?s1] by (simp add: fifo_demo_def newFifo_def)
  ultimately show ?thesis by (rule fifo_reach.step)
qed

theorem fifo_order_witness: "fs_puts fifo_demo = fs_gets fifo_demo @ fifo_list (fs_fifo fifo_demo)"
  using fifo_order [OF fifo_demo_reach] by simp

theorem fifo_no_lost_wakeup_witness: "length (fifo_list (fs_fifo fifo_demo)) = 0"
  using fifo_no_lost_wakeup [OF fifo_demo_reach, of "hd (fs_ops fifo_demo)"] by (simp add: fifo_demo_def)

end
