(* ===== verification/MqttClient.thy ===== *)
theory MqttClient
  imports Fifo "HOL-Library.Multiset"
begin

text \<open>
  Publication and acknowledgement of MQTT messages (\<^verbatim>\<open>mqtt/client/client.go\<close>: \<open>publishWrapper\<close>, \<open>publish\<close>,
  \<open>ackManager\<close>, \<open>ackOne\<close>) over the queue of \<open>Fifo\<close>, and the statistics of \<^verbatim>\<open>mqtt/client/stats.go\<close>. \<open>ackManager\<close> is the step relation
  of a goroutine that other goroutines, which publish, close the queue or lose the connection, may interrupt.
\<close>

section \<open>Messages and tokens\<close>

text \<open>
  What paho gives for a published message is a token. Its message identifier is known when it
  is a \<^verbatim>\<open>PublishToken\<close>. What a token answers changes with time: \<open>answers\<close> are those it gives in one \<open>ackOne\<close>, to
  \<^verbatim>\<open>WaitTimeout\<close> and to the two calls of \<^verbatim>\<open>Error\<close>, between which it may complete.
\<close>

record 'tok message =
  m_retry :: bool
  m_payload :: string
  m_topic :: string
  m_token :: "'tok option"

record 'tok paho =
  pa_id :: "'tok \<Rightarrow> nat option"
  pa_publish :: "nat \<Rightarrow> string \<Rightarrow> string \<Rightarrow> 'tok"

record answers =
  an_wait :: bool
  an_err :: "string option"
  an_err_again :: "string option"

section \<open>Statistics\<close>

record bucketStats =
  b_min :: duration
  b_max :: duration
  b_avg :: duration
  b_nbMessages :: nat

record mqttStats =
  st_publishDates :: "(nat, gotime) gomap"
  st_buckets :: "(gotime, bucketStats) gomap"
  st_globalStats :: bucketStats

definition bucketSize :: duration where
  "bucketSize = 15 * 60 * second"

definition bucketMaxAge :: duration where
  "bucketMaxAge = 24 * 60 * 60 * second"

definition noStats :: bucketStats where
  "noStats = \<lparr>b_min = 0, b_max = 0, b_avg = 0, b_nbMessages = 0\<rparr>"

definition newMQTTStats :: mqttStats where
  "newMQTTStats = \<lparr>st_publishDates = [], st_buckets = [], st_globalStats = noStats\<rparr>"

text \<open>Go's integer division rounds towards zero.\<close>

definition go_div :: "int \<Rightarrow> int \<Rightarrow> int" where
  "go_div a b = (if 0 \<le> a then a div b else - (- a div b))"

definition messagePublished :: "'tok paho \<Rightarrow> 'tok \<Rightarrow> gotime \<Rightarrow> mqttStats \<Rightarrow> mqttStats" where
  "messagePublished P tok now s =
     (case pa_id P tok of None \<Rightarrow> s | Some n \<Rightarrow> s\<lparr>st_publishDates := gm_set n now (st_publishDates s)\<rparr>)"

definition ackFailed :: "'tok paho \<Rightarrow> 'tok \<Rightarrow> mqttStats \<Rightarrow> mqttStats" where
  "ackFailed P tok s =
     (case pa_id P tok of None \<Rightarrow> s | Some n \<Rightarrow> s\<lparr>st_publishDates := gm_del n (st_publishDates s)\<rparr>)"

definition updateStats :: "bucketStats \<Rightarrow> duration \<Rightarrow> bucketStats" where
  "updateStats s ackWait =
     \<lparr>b_min = (if ackWait < b_min s \<or> b_min s = 0 then ackWait else b_min s),
      b_max = max ackWait (b_max s),
      b_avg = go_div (b_avg s * int (b_nbMessages s) + ackWait) (int (b_nbMessages s + 1)),
      b_nbMessages = b_nbMessages s + 1\<rparr>"

definition cleanOldBuckets :: "gotime \<Rightarrow> mqttStats \<Rightarrow> mqttStats" where
  "cleanOldBuckets now s =
     s\<lparr>st_buckets := filter (\<lambda>(bucket, _). \<not> bucket < now - bucketMaxAge) (st_buckets s)\<rparr>"

definition ackReceived :: "'tok paho \<Rightarrow> 'tok \<Rightarrow> gotime \<Rightarrow> mqttStats \<Rightarrow> mqttStats" where
  "ackReceived P tok now s =
     (case pa_id P tok of
        None \<Rightarrow> s
      | Some msgID \<Rightarrow>
          (case map_of (st_publishDates s) msgID of
             None \<Rightarrow> s
           | Some publishDate \<Rightarrow>
               let s = s\<lparr>st_publishDates := gm_del msgID (st_publishDates s)\<rparr>;
                   ackWait = time_sub now publishDate;
                   bucket = time_truncate now bucketSize;
                   stats = gm_get_or noStats (st_buckets s) bucket;
                   s = (if gm_mem bucket (st_buckets s) then s else cleanOldBuckets now s)
               in s\<lparr>st_buckets := gm_set bucket (updateStats stats ackWait) (st_buckets s),
                    st_globalStats := updateStats (st_globalStats s) ackWait\<rparr>))"

lemma updateStats_sel:
  "b_min (updateStats s w) = (if w < b_min s \<or> b_min s = 0 then w else b_min s)"
  "b_max (updateStats s w) = max w (b_max s)" "b_nbMessages (updateStats s w) = b_nbMessages s + 1"
  by (simp_all add: updateStats_def)

lemma updateStats_avg:
  assumes "lo \<le> avg" "avg \<le> hi" "lo \<le> w" "w \<le> hi" "0 \<le> lo"
  shows "lo \<le> go_div (avg * int n + w) (int (n + 1))" "go_div (avg * int n + w) (int (n + 1)) \<le> hi"
proof -
  have p: "0 < int (n + 1)" by simp
  have nn: "0 \<le> avg * int n + w" using assms by simp
  have lo: "lo * int (n + 1) \<le> avg * int n + w"
    using assms mult_right_mono [of lo avg "int n"] by (simp add: algebra_simps)
  have hi: "avg * int n + w \<le> hi * int (n + 1)"
    using assms mult_right_mono [of avg hi "int n"] by (simp add: algebra_simps)
  show "lo \<le> go_div (avg * int n + w) (int (n + 1))"
    using zdiv_mono1 [OF lo p] nn by (simp add: go_div_def)
  show "go_div (avg * int n + w) (int (n + 1)) \<le> hi"
    using zdiv_mono1 [OF hi p] nn by (simp add: go_div_def)
qed

lemma updateStats_run:
  assumes "ws \<noteq> []" "\<forall>w \<in> set ws. 0 < w"
  shows "let s = foldl updateStats noStats ws
         in b_min s = Min (set ws) \<and> b_max s = Max (set ws) \<and> b_nbMessages s = length ws \<and>
            b_min s \<le> b_avg s \<and> b_avg s \<le> b_max s"
  using assms
proof (induction ws rule: rev_induct)
  case (snoc w ws)
  show ?case
  proof (cases "ws = []")
    case True
    then show ?thesis using snoc.prems by (simp add: updateStats_def noStats_def go_div_def)
  next
    case False
    let ?s = "foldl updateStats noStats ws"
    have IH: "b_min ?s = Min (set ws)" "b_max ?s = Max (set ws)" "b_nbMessages ?s = length ws"
      "b_min ?s \<le> b_avg ?s" "b_avg ?s \<le> b_max ?s"
      using snoc.IH [OF False] snoc.prems by (simp_all add: Let_def)
    have "0 < Min (set ws)" using False snoc.prems by (subst Min_gr_iff) auto
    then have m: "b_min (updateStats ?s w) = min w (Min (set ws))"
      using IH(1) by (auto simp: updateStats_def)
    have n: "min w (Min (set ws)) \<le> b_avg (updateStats ?s w)"
      and x: "b_avg (updateStats ?s w) \<le> max w (Max (set ws))"
      using updateStats_avg [of "min w (Min (set ws))" "b_avg ?s" "max w (Max (set ws))" w "length ws"]
        IH snoc.prems \<open>0 < Min (set ws)\<close>
      by (auto simp: updateStats_def)
    show ?thesis using m n x IH(2,3) False updateStats_sel(2,3) [of ?s w] by (simp add: Let_def)
  qed
qed simp

text \<open>
  Acknowledgement statistics. For positive waits, the statistics hold the exact minimum, maximum
  and number of the waits, and the running average stays between the minimum and the maximum.
\<close>

theorem ack_stats:
  assumes "ws \<noteq> []" "\<forall>w \<in> set ws. 0 < w"
  shows "b_min (foldl updateStats noStats ws) = Min (set ws) \<and>
         b_max (foldl updateStats noStats ws) = Max (set ws) \<and>
         b_nbMessages (foldl updateStats noStats ws) = length ws \<and>
         b_min (foldl updateStats noStats ws) \<le> b_avg (foldl updateStats noStats ws) \<and>
         b_avg (foldl updateStats noStats ws) \<le> b_max (foldl updateStats noStats ws)"
  using updateStats_run [OF assms] by (simp add: Let_def)

theorem ack_stats_witness: "b_min (foldl updateStats noStats [30, 10, 20]) = 10"
proof -
  have "b_min (foldl updateStats noStats [30, 10, 20]) = Min (set [30, 10, 20])"
    using ack_stats [of "[30, 10, 20]"] by auto
  then show ?thesis by simp
qed

text \<open>
  The buckets that are kept: every key is the start of a bucket, and none is older than a day
  when the newest one was created.
\<close>

definition buckets_inv :: "gotime \<Rightarrow> (gotime, bucketStats) gomap \<Rightarrow> bool" where
  "buckets_inv now bs \<longleftrightarrow>
     gm_wf bs \<and>
     (\<exists>top \<le> now. \<forall>k \<in> fst ` set bs. bucketSize dvd k \<and> top - bucketMaxAge \<le> k \<and> k \<le> top)"

lemma truncate_bucket:
  "bucketSize dvd time_truncate now bucketSize" "time_truncate now bucketSize \<le> now"
  "now - bucketSize < time_truncate now bucketSize"
  by (simp_all add: time_truncate_def bucketSize_def minus_mod_eq_mult_div)
    (simp add: pos_mod_bound minus_mult_div_eq_mod [symmetric] pos_mod_sign)?

lemma gm_set_keys: "fst ` set (gm_set k v m) = insert k (fst ` set m)"
  by (metis dom_map_of_conv_image_fst dom_fun_upd option.distinct(1) map_of_gm_set)

lemma buckets_inv_old:
  assumes "buckets_inv now bs" "gm_mem b bs"
  shows "buckets_inv now (gm_set b v bs)"
proof -
  have "fst ` set (gm_set b v bs) = fst ` set bs" using assms(2) by (auto simp: gm_set_keys gm_mem_iff)
  moreover have "gm_wf (gm_set b v bs)" using assms(1) by (auto simp: buckets_inv_def)
  ultimately show ?thesis using assms(1) by (simp add: buckets_inv_def)
qed

lemma buckets_inv_new:
  assumes "buckets_inv now bs"
  shows "buckets_inv now (gm_set (time_truncate now bucketSize) v
           (filter (\<lambda>(bucket, _). \<not> bucket < now - bucketMaxAge) bs))"
proof -
  let ?b = "time_truncate now bucketSize"
  let ?bs = "filter (\<lambda>(bucket, _). \<not> bucket < now - bucketMaxAge) bs"
  obtain top where top: "top \<le> now" "gm_wf bs" "\<forall>k \<in> fst ` set bs. bucketSize dvd k \<and> k \<le> top"
    using assms by (auto simp: buckets_inv_def)
  have "bucketSize dvd k \<and> now - bucketMaxAge \<le> k \<and> k \<le> now" if "k \<in> fst ` set ?bs" for k
    using that top(1,3) by force
  moreover have "now - bucketMaxAge \<le> ?b"
    using truncate_bucket(3) [of now] by (simp add: bucketSize_def bucketMaxAge_def)
  ultimately have "\<forall>k \<in> fst ` set (gm_set ?b v ?bs). bucketSize dvd k \<and> now - bucketMaxAge \<le> k \<and> k \<le> now"
    using truncate_bucket(1,2) [of now] by (auto simp: gm_set_keys)
  moreover have "gm_wf (gm_set ?b v ?bs)" using gm_wf_set [OF gm_wf_filter [OF top(2)]] .
  ultimately show ?thesis unfolding buckets_inv_def by blast
qed

lemma ackReceived_buckets:
  "buckets_inv now (st_buckets s) \<Longrightarrow> buckets_inv now (st_buckets (ackReceived P tok now s))"
  using buckets_inv_old buckets_inv_new
  by (auto simp: ackReceived_def Let_def cleanOldBuckets_def split: option.splits)

lemma multiples_in_day:
  fixes d :: int
  assumes "0 < d" "\<forall>k \<in> K. d dvd k \<and> u - n * d \<le> k \<and> k \<le> u" "0 \<le> n"
  shows "card K \<le> nat n + 1"
proof -
  have "inj_on (\<lambda>k. k div d) K" using assms(2) by (metis (no_types, lifting) inj_onI dvd_div_mult_self)
  moreover have "(\<lambda>k. k div d) ` K \<subseteq> {u div d - n..u div d}"
  proof
    fix x assume "x \<in> (\<lambda>k. k div d) ` K"
    then obtain k where k: "k \<in> K" "x = k div d" by auto
    have "(u - n * d) div d \<le> k div d" "k div d \<le> u div d"
      using assms(1,2) k(1) by (auto intro: zdiv_mono1)
    moreover have "(u - n * d) div d = u div d - n"
      using assms(1) div_mult_self1 [of d u "- n"] by simp
    ultimately show "x \<in> {u div d - n..u div d}" using k(2) by simp
  qed
  ultimately have "card K \<le> card {u div d - n..u div d}"
    by (metis card_image card_mono finite_atLeastAtMost_int)
  then show ?thesis using assms(3) by simp
qed

text \<open>A sequence of events of the statistics.\<close>

datatype 'tok stat_event = Published 'tok gotime | Acked 'tok gotime | Failed 'tok

fun stat_apply :: "'tok paho \<Rightarrow> mqttStats \<Rightarrow> 'tok stat_event \<Rightarrow> mqttStats" where
  "stat_apply P s (Published tok t) = messagePublished P tok t s"
| "stat_apply P s (Acked tok t) = ackReceived P tok t s"
| "stat_apply P s (Failed tok) = ackFailed P tok s"

fun ack_times :: "'tok stat_event list \<Rightarrow> gotime list" where
  "ack_times [] = []"
| "ack_times (Acked tok t # evs) = t # ack_times evs"
| "ack_times (_ # evs) = ack_times evs"

lemma buckets_inv_mono:
  assumes "buckets_inv now bs" "now \<le> now'"
  shows "buckets_inv now' bs"
proof -
  obtain u where "u \<le> now" "\<forall>k \<in> fst ` set bs. bucketSize dvd k \<and> u - bucketMaxAge \<le> k \<and> k \<le> u" "gm_wf bs"
    using assms(1) unfolding buckets_inv_def by blast
  then show ?thesis unfolding buckets_inv_def using assms(2) by (intro conjI exI [of _ u]) simp_all
qed

lemma stat_run_buckets:
  assumes "buckets_inv now (st_buckets s)" "sorted (now # ack_times evs)"
  shows "\<exists>now'. buckets_inv now' (st_buckets (foldl (stat_apply P) s evs))"
  using assms
proof (induction evs arbitrary: s now)
  case Nil
  then show ?case by auto
next
  case (Cons ev evs)
  show ?case
  proof (cases ev)
    case (Acked tok t)
    have "buckets_inv t (st_buckets (ackReceived P tok t s))"
      using ackReceived_buckets [OF buckets_inv_mono [OF Cons.prems(1), of t]] Cons.prems(2) Acked by simp
    then show ?thesis using Cons.IH [of t "ackReceived P tok t s"] Cons.prems(2) Acked by simp
  next
    case (Published tok t)
    then show ?thesis using Cons.IH [of now "messagePublished P tok t s"] Cons.prems
      by (simp add: messagePublished_def split: option.splits)
  next
    case (Failed tok)
    then show ?thesis using Cons.IH [of now "ackFailed P tok s"] Cons.prems
      by (simp add: ackFailed_def split: option.splits)
  qed
qed

text \<open>
  The statistics do not grow. However long the client runs, at most 97 buckets of a quarter of an
  hour are kept, provided the acknowledgements come in the order of time.
\<close>

theorem stat_buckets_bounded:
  assumes "sorted (ack_times evs)"
  shows "length (st_buckets (foldl (stat_apply P) newMQTTStats evs)) \<le> 97"
proof -
  let ?now = "Min (insert 0 (set (ack_times evs)))"
  have "buckets_inv ?now (st_buckets newMQTTStats)" unfolding buckets_inv_def newMQTTStats_def by (intro conjI exI [of _ ?now]) simp_all
  moreover have "sorted (?now # ack_times evs)" using assms by auto
  ultimately obtain now' where "buckets_inv now' (st_buckets (foldl (stat_apply P) newMQTTStats evs))"
    using stat_run_buckets by blast
  then obtain u where wf: "gm_wf (st_buckets (foldl (stat_apply P) newMQTTStats evs))"
    and k: "\<forall>k \<in> fst ` set (st_buckets (foldl (stat_apply P) newMQTTStats evs)).
      bucketSize dvd k \<and> u - 96 * bucketSize \<le> k \<and> k \<le> u"
    by (auto simp: buckets_inv_def bucketSize_def bucketMaxAge_def)
  have "card (fst ` set (st_buckets (foldl (stat_apply P) newMQTTStats evs))) \<le> nat 96 + 1"
    by (rule multiples_in_day [OF _ k]) (simp_all add: bucketSize_def)
  then show ?thesis using distinct_card [OF wf] by simp
qed

theorem stat_buckets_bounded_witness:
  "length (st_buckets (foldl (stat_apply \<lparr>pa_id = Some, pa_publish = \<lambda>_ _ _. 0\<rparr>)
     newMQTTStats [Published 7 1, Acked 7 5])) \<le> 97"
  using stat_buckets_bounded [of "[Published 7 1, Acked 7 5]"] by simp

section \<open>Publication and acknowledgement\<close>

text \<open>
  The state the two operations work on: the connection, the statistics, the queue of \<open>ReloadState\<close>, the
  buffers given back to the pool of the encoder, and the date of the last acknowledgement.
\<close>

record 'tok pub_state =
  p_mqtt :: "nat option"
  p_stats :: mqttStats
  p_pending :: "'tok message fifo"
  p_pool :: "string list"
  p_lastReport :: gotime

definition MaxMQTTPayloadSize :: nat where
  "MaxMQTTPayloadSize = 1024 * 1024"

definition PutBuffer :: "string \<Rightarrow> string list \<Rightarrow> string list" where
  "PutBuffer v pool = (if 256 * 1024 < length v then pool else v # pool)"

text \<open>
  \<open>Put\<close> when the goroutine has the lock: \<open>Refused\<close> stands for the wait on a full queue.
\<close>

definition Put :: "bool \<Rightarrow> 'a fifo \<Rightarrow> 'a \<Rightarrow> 'a fifo fifo_result" where
  "Put ctx_done f v =
     (if f_closed f \<or> ctx_done then Result f
      else if f_size f \<le> f_writeReadDiff f then Refused
      else (case fifo_add f v of None \<Rightarrow> Panic | Some f' \<Rightarrow> Result f'))"

definition publish :: "'tok paho \<Rightarrow> gotime \<Rightarrow> string \<Rightarrow> string \<Rightarrow> bool \<Rightarrow> 'tok pub_state \<Rightarrow> 'tok message \<times> bool \<times> 'tok pub_state" where
  "publish P now topic payload retry s =
     (let msg = \<lparr>m_retry = retry, m_payload = payload, m_topic = topic, m_token = None\<rparr>
      in case p_mqtt s of
           None \<Rightarrow> (msg, retry, s)
         | Some c \<Rightarrow>
             let tok = pa_publish P c topic payload
             in (msg\<lparr>m_token := Some tok\<rparr>, True, s\<lparr>p_stats := messagePublished P tok now (p_stats s)\<rparr>))"

datatype publish_error = ErrPayloadTooLarge | ErrEncode

text \<open>
  \<open>publishWrapper\<close>: \<open>Inl\<close> is the error it returns, with the state; \<open>Inr Refused\<close> is a call that waits
  for a slot of the queue.
\<close>

definition publishWrapper :: "'tok paho \<Rightarrow> gotime \<Rightarrow> bool \<Rightarrow> string \<Rightarrow> string \<Rightarrow> bool \<Rightarrow> 'tok pub_state \<Rightarrow>
    publish_error \<times> 'tok pub_state + 'tok pub_state fifo_result" where
  "publishWrapper P now ctx_done topic payload retry s =
     (if MaxMQTTPayloadSize < length payload
      then Inl (ErrPayloadTooLarge, s\<lparr>p_pool := PutBuffer payload (p_pool s)\<rparr>)
      else case publish P now topic payload retry s of
             (msg, True, s) \<Rightarrow>
               (case Put ctx_done (p_pending s) msg of
                  Result f \<Rightarrow> Inr (Result (s\<lparr>p_pending := f\<rparr>))
                | Refused \<Rightarrow> Inr Refused
                | Panic \<Rightarrow> Inr Panic)
           | (msg, False, s) \<Rightarrow> Inr (Result (s\<lparr>p_pool := PutBuffer payload (p_pool s)\<rparr>)))"

text \<open>\<open>encode\<close> is the compression of the payload, with the buffer it leaves when it fails.\<close>

definition PublishBytes :: "(string \<Rightarrow> string + string) \<Rightarrow> 'tok paho \<Rightarrow> gotime \<Rightarrow> bool \<Rightarrow> string \<Rightarrow> string \<Rightarrow> bool \<Rightarrow>
    'tok pub_state \<Rightarrow> publish_error \<times> 'tok pub_state + 'tok pub_state fifo_result" where
  "PublishBytes encode P now ctx_done topic payload retry s =
     (case encode payload of
        Inl buffer \<Rightarrow> Inl (ErrEncode, s\<lparr>p_pool := PutBuffer buffer (p_pool s)\<rparr>)
      | Inr buffer \<Rightarrow> publishWrapper P now ctx_done topic buffer retry s)"

text \<open>\<open>encode\<close> is \<open>EncodeObject\<close>; the context is the background context, which is never done.\<close>

definition PublishAsJSON :: "('p \<Rightarrow> string + string) \<Rightarrow> 'tok paho \<Rightarrow> gotime \<Rightarrow> string \<Rightarrow> 'p \<Rightarrow> bool \<Rightarrow>
    'tok pub_state \<Rightarrow> publish_error \<times> 'tok pub_state + 'tok pub_state fifo_result" where
  "PublishAsJSON encode P now topic payload retry s =
     (case encode payload of
        Inl buffer \<Rightarrow> Inl (ErrEncode, s\<lparr>p_pool := PutBuffer buffer (p_pool s)\<rparr>)
      | Inr buffer \<Rightarrow> publishWrapper P now False topic buffer retry s)"

section \<open>Acknowledgement\<close>

text \<open>
  \<open>ackOne\<close> up to the point where it knows what to do: the message was acknowledged, it is given up, it
  has to be published again, or it goes back to the queue. Waiting for the token takes up to ten seconds.
\<close>

datatype 'tok ack_next =
    AckDone
  | AckGiveUp "string option"
  | AckRepublish "'tok message" "string option"
  | AckAdd "'tok message" "string option"

definition ackOne_wait :: "'tok paho \<Rightarrow> answers \<Rightarrow> gotime \<Rightarrow> 'tok message \<Rightarrow> 'tok pub_state \<Rightarrow> 'tok ack_next \<times> 'tok pub_state" where
  "ackOne_wait P a now msg s =
     (case m_token msg of
        None \<Rightarrow>
          if \<not> m_retry msg then (AckGiveUp None, s\<lparr>p_pool := PutBuffer (m_payload msg) (p_pool s)\<rparr>)
          else (AckRepublish msg None, s)
      | Some tok \<Rightarrow>
          let err = an_err a;
              s = (if err \<noteq> None then s\<lparr>p_stats := ackFailed P tok (p_stats s)\<rparr> else s)
          in if an_err_again a \<noteq> None
             then if \<not> m_retry msg then (AckGiveUp err, s\<lparr>p_pool := PutBuffer (m_payload msg) (p_pool s)\<rparr>)
                  else (AckRepublish msg err, s)
             else if \<not> an_wait a then (AckAdd msg err, s)
             else (AckDone, s\<lparr>p_pool := PutBuffer (m_payload msg) (p_pool s),
                              p_stats := ackReceived P tok now (p_stats s), p_lastReport := now\<rparr>))"

text \<open>
  The part of \<open>ackOne\<close> that publishes a message again: \<open>tok\<close> and \<open>terr\<close> are the token and its error when there is
  a connection. A message that could not be published has no token, and \<open>ackOne\<close> sleeps for a second.
\<close>

definition ackOne_republish :: "'tok \<Rightarrow> string option \<Rightarrow> 'tok message \<Rightarrow> 'tok pub_state \<Rightarrow> 'tok message" where
  "ackOne_republish tok terr msg s =
     (case p_mqtt s of
        None \<Rightarrow> msg\<lparr>m_token := None\<rparr>
      | Some c \<Rightarrow> msg\<lparr>m_token := (if terr \<noteq> None then None else Some tok)\<rparr>)"

text \<open>
  The goroutine of \<open>ackManager\<close>: where it is, and what became of the messages. \<open>aw_added\<close> are the messages that were put in
  the queue by publications, \<open>aw_dropped\<close> those \<open>ackOne\<close> logs as dropped, with the queue that refused them.
\<close>

datatype 'tok ack_pc =
    PcGet
  | PcWait "'tok message"
  | PcRepublish "'tok message" "string option"
  | PcAdd "'tok message" "string option"
  | PcStopped

record 'tok ack_world =
  aw_state :: "'tok pub_state"
  aw_pc :: "'tok ack_pc"
  aw_added :: "'tok message list"
  aw_acked :: "('tok message \<times> answers) list"
  aw_discarded :: "'tok message list"
  aw_dropped :: "('tok message \<times> 'tok message fifo) list"

fun after_wait :: "'tok message \<Rightarrow> answers \<Rightarrow> 'tok ack_next \<Rightarrow> 'tok ack_world \<Rightarrow> 'tok ack_world" where
  "after_wait msg a AckDone w = w\<lparr>aw_pc := PcGet, aw_acked := aw_acked w @ [(msg, a)]\<rparr>"
| "after_wait msg a (AckGiveUp err) w = w\<lparr>aw_pc := PcGet, aw_discarded := aw_discarded w @ [msg]\<rparr>"
| "after_wait msg a (AckRepublish m err) w = w\<lparr>aw_pc := PcRepublish m err\<rparr>"
| "after_wait msg a (AckAdd m err) w = w\<lparr>aw_pc := PcAdd m err\<rparr>"

abbreviation (input) aw_queue :: "'tok ack_world \<Rightarrow> 'tok message fifo" where
  "aw_queue w \<equiv> p_pending (aw_state w)"

text \<open>
  The steps of \<open>ackManager\<close>, and between any two of them those of other goroutines: a publication, the closing of the
  queue, and a change of the connection.
\<close>

inductive ack_step :: "'tok paho \<Rightarrow> 'tok ack_world \<Rightarrow> 'tok ack_world \<Rightarrow> bool" for P where
  get: "aw_pc w = PcGet \<Longrightarrow> \<not> f_closed (aw_queue w) \<Longrightarrow> 0 < f_writeReadDiff (aw_queue w) \<Longrightarrow>
    fifo_take (aw_queue w) = Some (f, msg) \<Longrightarrow>
    ack_step P w (w\<lparr>aw_state := (aw_state w)\<lparr>p_pending := f\<rparr>, aw_pc := PcWait msg\<rparr>)"
| stop: "aw_pc w = PcGet \<Longrightarrow> ack_step P w (w\<lparr>aw_pc := PcStopped\<rparr>)"
| wait: "aw_pc w = PcWait msg \<Longrightarrow> ackOne_wait P a now msg (aw_state w) = (nx, s) \<Longrightarrow>
    ack_step P w (after_wait msg a nx (w\<lparr>aw_state := s\<rparr>))"
| republish: "aw_pc w = PcRepublish msg err \<Longrightarrow>
    ack_step P w (w\<lparr>aw_pc := PcAdd (ackOne_republish tok terr msg (aw_state w)) err\<rparr>)"
| add: "aw_pc w = PcAdd msg err \<Longrightarrow> PutNoWait (aw_queue w) msg = Result f \<Longrightarrow>
    ack_step P w (w\<lparr>aw_state := (aw_state w)\<lparr>p_pending := f\<rparr>, aw_pc := PcGet\<rparr>)"
| drop: "aw_pc w = PcAdd msg err \<Longrightarrow> PutNoWait (aw_queue w) msg = Refused \<Longrightarrow>
    ack_step P w (w\<lparr>aw_pc := PcGet, aw_dropped := aw_dropped w @ [(msg, aw_queue w)]\<rparr>)"
| publication: "publishWrapper P now ctx_done topic payload retry (aw_state w) = Inr (Result s) \<Longrightarrow>
    ack_step P w (w\<lparr>aw_state := s,
      aw_added := aw_added w @ List.drop (length (fifo_list (aw_queue w))) (fifo_list (p_pending s))\<rparr>)"
| close: "ack_step P w (w\<lparr>aw_state := (aw_state w)\<lparr>p_pending := (aw_queue w)\<lparr>f_closed := True\<rparr>\<rparr>\<rparr>)"
| connection: "ack_step P w (w\<lparr>aw_state := (aw_state w)\<lparr>p_mqtt := c\<rparr>\<rparr>)"

text \<open>A run starts with the messages the queue was left with by an earlier client.\<close>

inductive ack_reach :: "'tok paho \<Rightarrow> 'tok ack_world \<Rightarrow> bool" for P where
  start: "fifo_inv (p_pending s) \<Longrightarrow>
    ack_reach P \<lparr>aw_state = s, aw_pc = PcGet, aw_added = fifo_list (p_pending s), aw_acked = [], aw_discarded = [], aw_dropped = []\<rparr>"
| step: "ack_reach P w \<Longrightarrow> ack_step P w w' \<Longrightarrow> ack_reach P w'"

section \<open>No message is lost silently\<close>

definition content :: "'tok message \<Rightarrow> string \<times> string \<times> bool" where
  "content m = (m_topic m, m_payload m, m_retry m)"

text \<open>The message \<open>ackManager\<close> holds.\<close>

fun held :: "'tok ack_pc \<Rightarrow> 'tok message list" where
  "held (PcWait m) = [m]"
| "held (PcRepublish m err) = [m]"
| "held (PcAdd m err) = [m]"
| "held _ = []"

definition acknowledged :: "'tok message \<times> answers \<Rightarrow> bool" where
  "acknowledged = (\<lambda>(m, a). m_token m \<noteq> None \<and> an_wait a \<and> an_err_again a = None)"

definition ack_inv :: "'tok ack_world \<Rightarrow> bool" where
  "ack_inv w \<longleftrightarrow> fifo_inv (aw_queue w) \<and>
     mset (map content (aw_added w)) =
       mset (map content (fifo_list (aw_queue w) @ held (aw_pc w) @ map fst (aw_acked w) @ aw_discarded w @ map fst (aw_dropped w))) \<and>
     list_all acknowledged (aw_acked w) \<and> list_all (\<lambda>m. \<not> m_retry m) (aw_discarded w) \<and>
     list_all (\<lambda>(m, q). f_closed q \<or> length (fifo_list q) = f_size q) (aw_dropped w)"

lemma content_republish [simp]: "content (ackOne_republish tok terr m s) = content m"
  by (simp add: ackOne_republish_def content_def split: option.split)

lemma ackOne_wait_cases:
  assumes "ackOne_wait P a now msg s = (nx, s')"
  shows "p_pending s' = p_pending s"
    and "nx = AckDone \<and> acknowledged (msg, a) \<or> (\<exists>err. nx = AckGiveUp err \<and> \<not> m_retry msg) \<or>
         (\<exists>err. nx = AckRepublish msg err) \<or> (\<exists>err. nx = AckAdd msg err)"
  using assms by (auto simp: ackOne_wait_def acknowledged_def Let_def split: option.splits if_splits)

text \<open>What a publication that returns without an error does to the queue.\<close>

lemma publishWrapper_queue:
  assumes "publishWrapper P now ctx_done topic payload retry s = Inr (Result s')" "fifo_inv (p_pending s)"
  shows "fifo_inv (p_pending s') \<and> (\<exists>new. fifo_list (p_pending s') = fifo_list (p_pending s) @ new)"
proof -
  obtain msg ok s1 where eq: "publish P now topic payload retry s = (msg, ok, s1)" by (rule prod_cases3)
  have s1: "p_pending s1 = p_pending s" using eq by (auto simp: publish_def Let_def split: option.splits)
  show ?thesis
  proof (cases "ok \<and> \<not> f_closed (p_pending s) \<and> \<not> ctx_done")
    case True
    have room: "f_writeReadDiff (p_pending s) < f_size (p_pending s)"
      using assms(1) eq True s1 by (auto simp: publishWrapper_def Put_def split: if_splits)
    show ?thesis
      using fifo_add_refines [OF assms(2) room, of msg] assms(1) eq True s1
      by (auto simp: publishWrapper_def Put_def split: if_splits)
  next
    case False
    then show ?thesis
      using assms eq s1 by (cases ok) (auto simp: publishWrapper_def Put_def split: if_splits)
  qed
qed

lemma ack_inv_step:
  assumes "ack_step P w w'" "ack_inv w"
  shows "ack_inv w'"
  using assms
proof (induction rule: ack_step.induct)
  case (get w f msg)
  have "fifo_inv (aw_queue w)" using get(5) by (simp add: ack_inv_def)
  from fifo_take_refines [OF this get(3)] have "fifo_inv f" "fifo_list (aw_queue w) = msg # fifo_list f" using get(4) by auto
  then show ?case using get(1,5) by (simp add: ack_inv_def)
next
  case (wait w msg a now nx s)
  note c = ackOne_wait_cases [OF wait(2)]
  from c(2) show ?case using wait(1,3) c(1) by (elim disjE exE conjE) (simp_all add: ack_inv_def)
next
  case (republish w msg err tok terr)
  then show ?case by (simp add: ack_inv_def)
next
  case (add w msg err f)
  have inv: "fifo_inv (aw_queue w)" using add(3) by (simp add: ack_inv_def)
  have "fifo_inv f \<and> fifo_list f = fifo_list (aw_queue w) @ [msg]"
    using fifo.put_result [OF inv, of msg] add(2) by (auto split: if_splits)
  then show ?case using add(1,3) by (simp add: ack_inv_def)
next
  case (drop w msg err)
  have inv: "fifo_inv (aw_queue w)" using drop(3) by (simp add: ack_inv_def)
  have "f_closed (aw_queue w) \<or> length (fifo_list (aw_queue w)) = f_size (aw_queue w)"
    using fifo.put_result [OF inv, of msg] drop(2) by (auto split: if_splits)
  then show ?case using drop(1,3) by (simp add: ack_inv_def)
next
  case (publication now ctx_done topic payload retry w s)
  have "fifo_inv (aw_queue w)" using publication(2) by (simp add: ack_inv_def)
  from publishWrapper_queue [OF publication(1) this] obtain new
    where "fifo_inv (p_pending s)" "fifo_list (p_pending s) = fifo_list (aw_queue w) @ new" by blast
  then show ?case using publication(2) by (simp add: ack_inv_def)
next
  case (close w)
  have "fifo_list ((aw_queue w)\<lparr>f_closed := True\<rparr>) = fifo_list (aw_queue w)" by (simp add: fifo_list_def)
  then show ?case using close by (simp add: ack_inv_def fifo_inv_def)
qed (auto simp: ack_inv_def)

text \<open>
  C10 (a message leaves the queue acknowledged, or it is dropped when the queue is full or closed). In every run of
  \<open>ackManager\<close> among other goroutines that publish, close the queue and change the connection, the
  messages that were ever queued are, with their topic and payload, exactly those still in the queue, the one \<open>ackManager\<close>
  works on, those acknowledged, those given up and those dropped. An acknowledged one had a token that completed
  without an error, one given up was not to be retried, and one dropped met a queue that was closed or full.
\<close>

theorem ack_no_silent_loss:
  assumes "ack_reach P w"
  shows "mset (map content (aw_added w)) =
       mset (map content (fifo_list (p_pending (aw_state w)) @ held (aw_pc w) @ map fst (aw_acked w) @ aw_discarded w @
         map fst (aw_dropped w))) \<and>
     list_all acknowledged (aw_acked w) \<and> list_all (\<lambda>m. \<not> m_retry m) (aw_discarded w) \<and>
     list_all (\<lambda>(m, q). f_closed q \<or> length (fifo_list q) = f_size q) (aw_dropped w)"
proof -
  have "ack_inv w" using assms
  proof (induction rule: ack_reach.induct)
    case (start s)
    then show ?case by (simp add: ack_inv_def)
  next
    case (step w w')
    then show ?case using ack_inv_step by blast
  qed
  then show ?thesis by (simp only: ack_inv_def)
qed

definition demo_paho :: "nat paho" where
  "demo_paho = \<lparr>pa_id = Some, pa_publish = \<lambda>_ _ _. 5\<rparr>"

definition demo_message :: "nat message" where
  "demo_message = \<lparr>m_retry = True, m_payload = ''x'', m_topic = ''t'', m_token = Some 2\<rparr>"

definition demo_pub :: "nat pub_state" where
  "demo_pub = \<lparr>p_mqtt = Some 0, p_stats = newMQTTStats,
     p_pending = \<lparr>f_size = 2, f_queue = [demo_message,
       \<lparr>m_retry = False, m_payload = [], m_topic = [], m_token = None\<rparr>], f_readIdx = 0, f_writeIdx = 1,
       f_writeReadDiff = 1, f_closed = False, f_zero = \<lparr>m_retry = False, m_payload = [], m_topic = [], m_token = None\<rparr>\<rparr>,
     p_pool = [], p_lastReport = 0\<rparr>"

text \<open>A message that is not acknowledged in time while the queue is closed is dropped.\<close>

theorem ack_no_silent_loss_witness:
  "\<exists>w. ack_reach demo_paho w \<and> map fst (aw_dropped w) = [demo_message] \<and>
     mset (map content (aw_added w)) = {#content demo_message#} \<and> list_all (\<lambda>(m, q). f_closed q \<or> length (fifo_list q) = f_size q) (aw_dropped w)"
proof -
  let ?a = "\<lparr>an_wait = False, an_err = None, an_err_again = None\<rparr>"
  let ?w0 = "\<lparr>aw_state = demo_pub, aw_pc = PcGet, aw_added = [demo_message], aw_acked = [], aw_discarded = [], aw_dropped = []\<rparr>"
  have q: "fifo_inv (p_pending demo_pub)" "fifo_list (p_pending demo_pub) = [demo_message]"
    by (simp_all add: demo_pub_def fifo_inv_def fifo_list_def)
  have 0: "ack_reach demo_paho ?w0" using ack_reach.start [OF q(1), of demo_paho] q(2) by simp
  obtain f where f: "fifo_take (p_pending demo_pub) = Some (f, demo_message)" "fifo_list f = []"
    using fifo_take_refines [OF q(1)] q(2) by (auto simp: demo_pub_def)
  let ?s = "demo_pub\<lparr>p_pending := f\<rparr>"
  have 1: "ack_reach demo_paho (?w0\<lparr>aw_state := ?s, aw_pc := PcWait demo_message\<rparr>)"
    using ack_step.get [of ?w0 f demo_message demo_paho] f(1) by (intro ack_reach.step [OF 0]) (simp add: demo_pub_def)
  have 2: "ack_reach demo_paho (?w0\<lparr>aw_state := ?s, aw_pc := PcAdd demo_message None\<rparr>)"
    using ack_step.wait [of "?w0\<lparr>aw_state := ?s, aw_pc := PcWait demo_message\<rparr>" demo_message demo_paho ?a 9 "AckAdd demo_message None" ?s]
    by (intro ack_reach.step [OF 1]) (simp add: ackOne_wait_def demo_message_def)
  let ?c = "f\<lparr>f_closed := True\<rparr>"
  have 3: "ack_reach demo_paho (?w0\<lparr>aw_state := ?s\<lparr>p_pending := ?c\<rparr>, aw_pc := PcAdd demo_message None\<rparr>)"
    using ack_step.close [of demo_paho "?w0\<lparr>aw_state := ?s, aw_pc := PcAdd demo_message None\<rparr>"] by (intro ack_reach.step [OF 2]) simp
  have 4: "ack_reach demo_paho (?w0\<lparr>aw_state := ?s\<lparr>p_pending := ?c\<rparr>, aw_dropped := [(demo_message, ?c)]\<rparr>)"
    using ack_step.drop [of "?w0\<lparr>aw_state := ?s\<lparr>p_pending := ?c\<rparr>, aw_pc := PcAdd demo_message None\<rparr>" demo_message None demo_paho]
    by (intro ack_reach.step [OF 3]) (simp add: PutNoWait_def)
  show ?thesis using ack_no_silent_loss [OF 4] by (intro exI [of _ "?w0\<lparr>aw_state := ?s\<lparr>p_pending := ?c\<rparr>, aw_dropped := [(demo_message, ?c)]\<rparr>"] conjI 4) simp_all
qed

text \<open>
  What a publication does. On an open queue with a free slot, and a context that is not done,
  \<open>publishWrapper\<close> refuses exactly the payloads over 1 MiB; it gives a message that can neither be sent
  nor retried back to the pool; any other message is appended to the pending messages, with
  a token exactly when there is a connection.
\<close>

theorem publishWrapper_outcome:
  assumes "fifo_inv (p_pending s)" "\<not> f_closed (p_pending s)" "f_writeReadDiff (p_pending s) < f_size (p_pending s)"
  shows "if MaxMQTTPayloadSize < length payload
         then publishWrapper P now False topic payload retry s =
                Inl (ErrPayloadTooLarge, s\<lparr>p_pool := PutBuffer payload (p_pool s)\<rparr>)
         else if p_mqtt s = None \<and> \<not> retry
         then publishWrapper P now False topic payload retry s = Inr (Result (s\<lparr>p_pool := PutBuffer payload (p_pool s)\<rparr>))
         else \<exists>s' m. publishWrapper P now False topic payload retry s = Inr (Result s') \<and>
                fifo_list (p_pending s') = fifo_list (p_pending s) @ [m] \<and> p_pool s' = p_pool s \<and>
                m_topic m = topic \<and> m_payload m = payload \<and> m_retry m = retry \<and>
                (m_token m \<noteq> None \<longleftrightarrow> p_mqtt s \<noteq> None)"
proof (cases "MaxMQTTPayloadSize < length payload \<or> p_mqtt s = None \<and> \<not> retry")
  case True
  then show ?thesis by (auto simp: publishWrapper_def publish_def)
next
  case False
  obtain msg ok s1 where eq: "publish P now topic payload retry s = (msg, ok, s1)" by (rule prod_cases3)
  have ok and pub: "p_pending s1 = p_pending s" "p_pool s1 = p_pool s"
    and m: "m_topic msg = topic" "m_payload msg = payload" "m_retry msg = retry" "m_token msg \<noteq> None \<longleftrightarrow> p_mqtt s \<noteq> None"
    using eq False by (auto simp: publish_def Let_def split: option.splits)
  obtain f where f: "fifo_add (p_pending s) msg = Some f" "fifo_list f = fifo_list (p_pending s) @ [msg]"
    using fifo_add_refines [OF assms(1,3), of msg] by blast
  have "publishWrapper P now False topic payload retry s = Inr (Result (s1\<lparr>p_pending := f\<rparr>))"
    using False eq \<open>ok\<close> pub f(1) assms(2,3) by (simp add: publishWrapper_def Put_def)
  then show ?thesis using False pub(2) m f(2) by (auto intro!: exI [of _ msg])
qed

theorem publishWrapper_outcome_witness:
  "\<exists>s' m. publishWrapper demo_paho 9 False ''t'' ''y'' False demo_pub = Inr (Result s') \<and>
     fifo_list (p_pending s') = fifo_list (p_pending demo_pub) @ [m] \<and> m_payload m = ''y'' \<and> m_token m \<noteq> None"
proof -
  have "fifo_inv (p_pending demo_pub)" "\<not> f_closed (p_pending demo_pub)"
    "f_writeReadDiff (p_pending demo_pub) < f_size (p_pending demo_pub)" "p_mqtt demo_pub = Some 0"
    by (simp_all add: demo_pub_def fifo_inv_def)
  with publishWrapper_outcome [of demo_pub "''y''" demo_paho 9 "''t''" False] show ?thesis
    by (auto simp: MaxMQTTPayloadSize_def)
qed

end
