(* ===== verification/OpenMqtt.thy ===== *)
theory OpenMqtt
  imports Types MqttClient
begin

text \<open>
  The open source MQTT connector (\<^verbatim>\<open>mqtt/mqtt.go\<close>): it collects the points the store notifies, and sends
  them every ten seconds in batches through the client of \<open>MqttClient\<close>. A publication waits while the queue of
  the client is full, so the sending of the batches is a sequence of steps.
\<close>

definition pointsBatchSize :: nat where
  "pointsBatchSize = 1000"

text \<open>The replacer of \<open>safeFQDN\<close> works on single characters.\<close>

definition safe_char :: "char \<Rightarrow> string" where
  "safe_char c = (if c \<in> {CHR ''#'', CHR ''+'', CHR ''/'', CHR ''>'', CHR ''*''} then []
     else if c = CHR ''.'' then '','' else [c])"

definition safeFQDN :: "string \<Rightarrow> string" where
  "safeFQDN fqdn = concat (map safe_char fqdn)"

record metricPayload =
  LabelsText :: string
  TimestampMS :: int
  Value :: float64

definition payload_of :: "MetricPoint \<Rightarrow> metricPayload" where
  "payload_of p =
     \<lparr>LabelsText = LabelsToText (mp_Labels p), TimestampMS = unix_milli (pt_Time (mp_Point p)),
      Value = pt_Value (mp_Point p)\<rparr>"

text \<open>The loop over the batches, from index \<open>i\<close>.\<close>

function batches :: "'a list \<Rightarrow> nat \<Rightarrow> 'a list list" where
  "batches payload i =
     (if i < length payload
      then (let end' = min (i + pointsBatchSize) (length payload)
            in take (end' - i) (drop i payload) # batches payload (i + pointsBatchSize))
      else [])"
  by pat_completeness auto
termination
  by (relation "measure (\<lambda>(payload, i). length payload - i)") (auto simp: pointsBatchSize_def)

declare batches.simps [simp del]

text \<open>
  \<open>EncodeObject\<close>: JSON has no NaN and no infinity, and the encoder fails on them. \<open>enc\<close> gives the compressed bytes, or
  those written before the failure.
\<close>

fun finite_value :: "float64 \<Rightarrow> bool" where
  "finite_value (FFin x) = True"
| "finite_value _ = False"

definition EncodeObject :: "(metricPayload list \<Rightarrow> string) \<Rightarrow> metricPayload list \<Rightarrow> string + string" where
  "EncodeObject enc payload =
     (if list_all (\<lambda>p. finite_value (Value p)) payload then Inr (enc payload) else Inl (enc payload))"

text \<open>
  \<open>mq_sending\<close> are the batches \<open>sendPoints\<close> has not published yet, \<open>mq_calls\<close> the calls of \<open>PublishAsJSON\<close> that returned: the
  topic, the payload and the error, which is only logged. A publication that has to wait for room in the queue is taken at the moment it
  gets it; on a closed queue the process panics, and nothing more is sent.
\<close>

record 'tok mqtt_connector =
  mq_FQDN :: string
  mq_pendingPoints :: "MetricPoint list"
  mq_sending :: "metricPayload list list"
  mq_client :: "'tok pub_state"
  mq_calls :: "(string \<times> metricPayload list \<times> publish_error option) list"

definition mqtt_New :: "string \<Rightarrow> 'tok pub_state \<Rightarrow> 'tok mqtt_connector" where
  "mqtt_New fqdn client =
     \<lparr>mq_FQDN = safeFQDN fqdn, mq_pendingPoints = [], mq_sending = [], mq_client = client, mq_calls = []\<rparr>"

definition addPoints :: "MetricPoint list \<Rightarrow> 'tok mqtt_connector \<Rightarrow> 'tok mqtt_connector" where
  "addPoints points m = m\<lparr>mq_pendingPoints := mq_pendingPoints m @ points\<rparr>"

definition PopPoints :: "'tok mqtt_connector \<Rightarrow> MetricPoint list \<times> 'tok mqtt_connector" where
  "PopPoints m = (mq_pendingPoints m, m\<lparr>mq_pendingPoints := []\<rparr>)"

definition sendPoints_begin :: "'tok mqtt_connector \<Rightarrow> 'tok mqtt_connector" where
  "sendPoints_begin m = (let (points, m) = PopPoints m in m\<lparr>mq_sending := batches (map payload_of points) 0\<rparr>)"

definition sendPoints_one :: "(metricPayload list \<Rightarrow> string) \<Rightarrow> 'tok paho \<Rightarrow> gotime \<Rightarrow> 'tok mqtt_connector \<Rightarrow> 'tok mqtt_connector" where
  "sendPoints_one enc P now m =
     (case mq_sending m of
        [] \<Rightarrow> m
      | b # bs \<Rightarrow>
          let topic = ''v1/agent/'' @ mq_FQDN m @ ''/data''
          in case PublishAsJSON (EncodeObject enc) P now topic b True (mq_client m) of
               Inl (err, client) \<Rightarrow> m\<lparr>mq_client := client, mq_sending := bs, mq_calls := mq_calls m @ [(topic, b, Some err)]\<rparr>
             | Inr (Result client) \<Rightarrow> m\<lparr>mq_client := client, mq_sending := bs, mq_calls := mq_calls m @ [(topic, b, None)]\<rparr>
             | Inr _ \<Rightarrow> m)"

lemma batches_end: "length payload \<le> i \<Longrightarrow> batches payload i = []"
  by (subst batches.simps) simp

lemma batches_step:
  assumes "i < length payload"
  shows "batches payload i = take pointsBatchSize (drop i payload) # batches payload (i + pointsBatchSize)"
proof -
  have "take (min (i + pointsBatchSize) (length payload) - i) (drop i payload) = take pointsBatchSize (drop i payload)"
    by (cases "i + pointsBatchSize \<le> length payload") (simp_all add: min_def)
  then show ?thesis using assms by (subst batches.simps) (simp only: if_True Let_def)
qed

lemma batches_concat: "concat (batches payload i) = drop i payload"
proof (induction payload i rule: batches.induct)
  case (1 payload i)
  show ?case
  proof (cases "i < length payload")
    case True
    then have "concat (batches payload i) = take pointsBatchSize (drop i payload) @ drop pointsBatchSize (drop i payload)"
      using 1 by (simp add: batches_step add.commute)
    then show ?thesis by (simp only: append_take_drop_id)
  qed (simp add: batches_end)
qed

lemma batches_size: "\<forall>b \<in> set (batches payload i). 0 < length b \<and> length b \<le> pointsBatchSize"
proof (induction payload i rule: batches.induct)
  case (1 payload i)
  show ?case
  proof (cases "i < length payload")
    case True
    then have "0 < length (take pointsBatchSize (drop i payload))" by (simp add: pointsBatchSize_def)
    then show ?thesis using 1 True by (simp add: batches_step)
  qed (simp add: batches_end)
qed

text \<open>
  What happens to the connector: the store notifies points, the ticker fires, \<open>sendPoints\<close> publishes a batch or waits, and
  other goroutines change the client. The loop of \<open>run\<close> is one goroutine, so a tick is only seen when nothing is being sent.
\<close>

datatype 'tok mqtt_event = Notify "MetricPoint list" | Tick | Send gotime | Client "'tok pub_state"

fun mqtt_apply :: "(metricPayload list \<Rightarrow> string) \<Rightarrow> 'tok paho \<Rightarrow> 'tok mqtt_connector \<Rightarrow> 'tok mqtt_event \<Rightarrow> 'tok mqtt_connector" where
  "mqtt_apply enc P m (Notify points) = addPoints points m"
| "mqtt_apply enc P m Tick = (if mq_sending m = [] then sendPoints_begin m else m)"
| "mqtt_apply enc P m (Send now) = sendPoints_one enc P now m"
| "mqtt_apply enc P m (Client client) = m\<lparr>mq_client := client\<rparr>"

definition mqtt_run :: "(metricPayload list \<Rightarrow> string) \<Rightarrow> 'tok paho \<Rightarrow> string \<Rightarrow> 'tok pub_state \<Rightarrow> 'tok mqtt_event list \<Rightarrow> 'tok mqtt_connector" where
  "mqtt_run enc P fqdn client evs = foldl (mqtt_apply enc P) (mqtt_New fqdn client) evs"

fun notified :: "'tok mqtt_event list \<Rightarrow> MetricPoint list" where
  "notified [] = []"
| "notified (Notify points # evs) = points @ notified evs"
| "notified (_ # evs) = notified evs"

lemma notified_append [simp]: "notified (xs @ ys) = notified xs @ notified ys"
  by (induction xs rule: notified.induct) simp_all

text \<open>What \<open>PublishAsJSON\<close> returns for a batch: the error depends on the batch only.\<close>

definition batch_error :: "(metricPayload list \<Rightarrow> string) \<Rightarrow> metricPayload list \<Rightarrow> publish_error option" where
  "batch_error enc b =
     (if \<not> list_all (\<lambda>p. finite_value (Value p)) b then Some ErrEncode
      else if 1024 * 1024 < length (enc b) then Some ErrPayloadTooLarge else None)"

lemma sendPoints_one_cases:
  assumes "mq_sending m = b # bs"
  shows "sendPoints_one enc P now m = m \<or>
    (\<exists>client. sendPoints_one enc P now m = m\<lparr>mq_client := client, mq_sending := bs,
       mq_calls := mq_calls m @ [(''v1/agent/'' @ mq_FQDN m @ ''/data'', b, batch_error enc b)]\<rparr>)"
  using assms
  by (auto simp: sendPoints_one_def PublishAsJSON_def EncodeObject_def publishWrapper_def batch_error_def MaxMQTTPayloadSize_def Let_def
      split: if_splits fifo_result.splits prod.splits bool.splits)

definition good_call :: "(metricPayload list \<Rightarrow> string) \<Rightarrow> string \<Rightarrow> string \<times> metricPayload list \<times> publish_error option \<Rightarrow> bool" where
  "good_call enc fqdn = (\<lambda>(topic, b, err). 0 < length b \<and> length b \<le> pointsBatchSize \<and>
     topic = ''v1/agent/'' @ safeFQDN fqdn @ ''/data'' \<and> err = batch_error enc b)"

definition mqtt_inv :: "(metricPayload list \<Rightarrow> string) \<Rightarrow> string \<Rightarrow> MetricPoint list \<Rightarrow> 'tok mqtt_connector \<Rightarrow> bool" where
  "mqtt_inv enc fqdn points m \<longleftrightarrow> mq_FQDN m = safeFQDN fqdn \<and>
     concat (map (fst \<circ> snd) (mq_calls m)) @ concat (mq_sending m) @ map payload_of (mq_pendingPoints m) = map payload_of points \<and>
     list_all (good_call enc fqdn) (mq_calls m) \<and> (\<forall>b \<in> set (mq_sending m). 0 < length b \<and> length b \<le> pointsBatchSize)"

lemma mqtt_inv_apply:
  assumes "mqtt_inv enc fqdn points m"
  shows "mqtt_inv enc fqdn (points @ notified [ev]) (mqtt_apply enc P m ev)"
proof (cases ev)
  case (Notify ps)
  then show ?thesis using assms by (auto simp: mqtt_inv_def addPoints_def)
next
  case Tick
  then show ?thesis
    using assms batches_size [of "map payload_of (mq_pendingPoints m)" 0]
    by (auto simp: mqtt_inv_def sendPoints_begin_def PopPoints_def batches_concat)
next
  case (Send now)
  show ?thesis
  proof (cases "mq_sending m")
    case Nil
    then show ?thesis using assms Send by (simp add: sendPoints_one_def)
  next
    case (Cons b bs)
    from sendPoints_one_cases [OF this, of enc P now] show ?thesis
      using assms Send Cons by (auto simp: mqtt_inv_def good_call_def)
  qed
next
  case (Client c)
  then show ?thesis using assms by (simp add: mqtt_inv_def)
qed

lemma mqtt_run_inv: "mqtt_inv enc fqdn (notified evs) (mqtt_run enc P fqdn client evs)"
proof (induction evs rule: rev_induct)
  case Nil
  show ?case by (simp add: mqtt_inv_def mqtt_run_def mqtt_New_def)
next
  case (snoc ev evs)
  from mqtt_inv_apply [OF this, of ev P] show ?case by (simp add: mqtt_run_def)
qed

lemma safeFQDN_clean: "set (safeFQDN fqdn) \<inter> set ''#+/>*.'' = {}"
  by (auto simp: safeFQDN_def safe_char_def split: if_splits)

text \<open>
  C34 (every notified point is handed over once, and a refused batch is lost whole). Whatever is notified, however the ticks
  fall and whatever other goroutines do to the client, the payloads of the batches given to \<open>PublishAsJSON\<close>, then those
  waiting to be sent and those of the pending points are the payloads of all notified points in order. No batch is
  empty or has more than 1000 points, and all go to the agent's topic, which has no wildcard or separator of
  MQTT or NATS in the agent's name. A call returns an error exactly when a value of the batch is not finite or the
  encoded batch is over 1 MiB; the batch is then not given to the client again.
\<close>

theorem mqtt_sends_once:
  "concat (map (fst \<circ> snd) (mq_calls (mqtt_run enc P fqdn client evs))) @ concat (mq_sending (mqtt_run enc P fqdn client evs)) @
     map payload_of (mq_pendingPoints (mqtt_run enc P fqdn client evs)) = map payload_of (notified evs) \<and>
   list_all (\<lambda>(topic, b, err). 0 < length b \<and> length b \<le> pointsBatchSize \<and> topic = ''v1/agent/'' @ safeFQDN fqdn @ ''/data'' \<and>
       err = (if \<not> list_all (\<lambda>p. finite_value (Value p)) b then Some ErrEncode
              else if 1024 * 1024 < length (enc b) then Some ErrPayloadTooLarge else None))
     (mq_calls (mqtt_run enc P fqdn client evs)) \<and>
   set (safeFQDN fqdn) \<inter> set ''#+/>*.'' = {}"
  using mqtt_run_inv [of enc fqdn evs P client] safeFQDN_clean [of fqdn]
  by (simp only: mqtt_inv_def good_call_def batch_error_def simp_thms)

end
