(* ===== verification/SyncState.thy ===== *)
theory SyncState
  imports Prelude
begin

text \<open>
  The state of the synchronizer with the Bleemeo API (\<^verbatim>\<open>bleemeo/internal/synchronizer/sync.go\<close>): the pending
  requests, the periods during which it is disabled, and the follow-up of errors by its loop.
\<close>

section \<open>Requests\<close>

type_synonym entity_name = string

datatype SyncType = SyncTypeNone | SyncTypeNormal | SyncTypeForceCacheRefresh

text \<open>The sync types are ordered as their integers are.\<close>

instantiation SyncType :: linorder
begin

fun sync_rank :: "SyncType \<Rightarrow> nat" where
  "sync_rank SyncTypeNone = 0"
| "sync_rank SyncTypeNormal = 1"
| "sync_rank SyncTypeForceCacheRefresh = 2"

definition less_eq_SyncType :: "SyncType \<Rightarrow> SyncType \<Rightarrow> bool" where
  "less_eq_SyncType a b = (sync_rank a \<le> sync_rank b)"

definition less_SyncType :: "SyncType \<Rightarrow> SyncType \<Rightarrow> bool" where
  "less_SyncType a b = (sync_rank a < sync_rank b)"

instance
proof
  fix a b :: SyncType
  show "a \<le> b \<Longrightarrow> b \<le> a \<Longrightarrow> a = b" by (cases a; cases b; simp add: less_eq_SyncType_def)
qed (auto simp: less_eq_SyncType_def less_SyncType_def)

end

lemma SyncType_less_eq [simp]:
  "SyncTypeNone \<le> t" "t \<le> SyncTypeForceCacheRefresh"
  "t \<le> SyncTypeNone \<longleftrightarrow> t = SyncTypeNone" "SyncTypeNormal \<le> t \<longleftrightarrow> t \<noteq> SyncTypeNone"
  "SyncTypeForceCacheRefresh \<le> t \<longleftrightarrow> t = SyncTypeForceCacheRefresh" "t \<le> SyncTypeNormal \<longleftrightarrow> t \<noteq> SyncTypeForceCacheRefresh"
  by (cases t; simp add: less_eq_SyncType_def)+

lemma SyncType_less [simp]:
  "SyncTypeNone < t \<longleftrightarrow> t \<noteq> SyncTypeNone" "t < SyncTypeForceCacheRefresh \<longleftrightarrow> t \<noteq> SyncTypeForceCacheRefresh"
  by (cases t; simp add: less_SyncType_def)+

record SyncRequest =
  rq_Type :: SyncType
  rq_Deadline :: gotime

datatype DisableReason = NotDisabled | DisableDuplicatedAgent | DisableTooManyErrors | DisableTooManyRequests
  | DisableAgentTooOld | DisableAuthenticationError | DisableTimeDrift | DisableLongStandingError
  | DisableRequestReconnection

datatype monitor_op = Change | Delete

record Synchronizer =
  sy_forceSync :: "(entity_name, SyncRequest) gomap"
  sy_nextFullSync :: gotime
  sy_fullSyncCount :: nat
  sy_startedAt :: gotime
  sy_lastSuccessfulSync :: gotime
  sy_lastSync :: gotime
  sy_maintenanceMode :: bool
  sy_suspendedMode :: bool
  sy_disabledUntil :: gotime
  sy_disableReason :: DisableReason
  sy_lastDuplicateCheck :: gotime
  sy_nextDuplicateCheck :: gotime
  sy_pendingMetricsUpdate :: "string list"
  sy_pendingMonitorsUpdate :: "(monitor_op \<times> string) list"
  sy_delayedContainer :: "(string, gotime) gomap"
  sy_isMQTTConnected :: "bool option"
  sy_shouldUpdateMQTTStatus :: bool

text \<open>\<open>now\<close> is what \<open>s.now()\<close> returns.\<close>

definition requestLaterSynchronizationLocked :: "gotime \<Rightarrow> entity_name \<Rightarrow> bool \<Rightarrow> duration \<Rightarrow> Synchronizer \<Rightarrow> Synchronizer" where
  "requestLaterSynchronizationLocked now entityName forceCacheRefresh delay s =
     (let deadline = now + delay;
          old = map_of (sy_forceSync s) entityName;
          request = (case old of Some r \<Rightarrow> r | None \<Rightarrow> \<lparr>rq_Type = SyncTypeNone, rq_Deadline = zero_time\<rparr>);
          request = (if forceCacheRefresh then request\<lparr>rq_Type := SyncTypeForceCacheRefresh\<rparr>
                     else if rq_Type request = SyncTypeNone then request\<lparr>rq_Type := SyncTypeNormal\<rparr> else request);
          request = (if old = None \<or> deadline < rq_Deadline request then request\<lparr>rq_Deadline := deadline\<rparr> else request)
      in s\<lparr>sy_forceSync := gm_set entityName request (sy_forceSync s)\<rparr>)"

definition requestSynchronizationLocked :: "gotime \<Rightarrow> entity_name \<Rightarrow> bool \<Rightarrow> Synchronizer \<Rightarrow> Synchronizer" where
  "requestSynchronizationLocked now entityName forceCacheRefresh s =
     requestLaterSynchronizationLocked now entityName forceCacheRefresh 0 s"

definition NotifyConfigUpdate :: "gotime \<Rightarrow> bool \<Rightarrow> Synchronizer \<Rightarrow> Synchronizer" where
  "NotifyConfigUpdate now immediate s =
     (let s = fold (\<lambda>e. requestSynchronizationLocked now e True) [''info'', ''agent'', ''facts'', ''config''] s
      in if \<not> immediate then s
         else fold (\<lambda>e. requestSynchronizationLocked now e True) [''metric'', ''container'', ''monitor''] s)"

definition UpdateMetrics :: "gotime \<Rightarrow> string list \<Rightarrow> Synchronizer \<Rightarrow> Synchronizer" where
  "UpdateMetrics now metricUUID s =
     (if length metricUUID = 1 \<and> metricUUID ! 0 = []
      then (requestSynchronizationLocked now ''metric'' True s)\<lparr>sy_pendingMetricsUpdate := []\<rparr>
      else requestSynchronizationLocked now ''metric'' False
             (s\<lparr>sy_pendingMetricsUpdate := sy_pendingMetricsUpdate s @ metricUUID\<rparr>))"

definition UpdateContainers :: "gotime \<Rightarrow> Synchronizer \<Rightarrow> Synchronizer" where
  "UpdateContainers now = requestSynchronizationLocked now ''container'' False"

definition UpdateFacts :: "gotime \<Rightarrow> duration \<Rightarrow> Synchronizer \<Rightarrow> Synchronizer" where
  "UpdateFacts now delay = requestLaterSynchronizationLocked now ''facts'' False delay"

definition UpdateInfo :: "gotime \<Rightarrow> Synchronizer \<Rightarrow> Synchronizer" where
  "UpdateInfo now = requestSynchronizationLocked now ''info'' False"

definition UpdateMonitors :: "gotime \<Rightarrow> Synchronizer \<Rightarrow> Synchronizer" where
  "UpdateMonitors now s =
     requestSynchronizationLocked now ''monitor'' True (requestSynchronizationLocked now ''config'' True s)"

definition UpdateMaintenance :: "gotime \<Rightarrow> duration \<Rightarrow> Synchronizer \<Rightarrow> Synchronizer" where
  "UpdateMaintenance now delay = requestLaterSynchronizationLocked now ''info'' False delay"

definition UpdateAgent :: "gotime \<Rightarrow> duration \<Rightarrow> Synchronizer \<Rightarrow> Synchronizer" where
  "UpdateAgent now delay = requestLaterSynchronizationLocked now ''agent'' False delay"

definition UpdateK8SAgentList :: "gotime \<Rightarrow> Synchronizer \<Rightarrow> Synchronizer" where
  "UpdateK8SAgentList now = requestSynchronizationLocked now ''agent'' True"

text \<open>An operation that is neither a change nor a deletion is the zero value of the type, a change.\<close>

definition UpdateMonitor :: "gotime \<Rightarrow> string \<Rightarrow> string \<Rightarrow> Synchronizer \<Rightarrow> Synchronizer" where
  "UpdateMonitor now op' uuid s =
     (let mu = (if op' = ''delete'' then Delete else Change, uuid)
      in requestSynchronizationLocked now ''monitor'' False
           (requestSynchronizationLocked now ''agent'' True
             (s\<lparr>sy_pendingMonitorsUpdate := sy_pendingMonitorsUpdate s @ [mu]\<rparr>)))"

definition popPendingMetricsUpdate :: "Synchronizer \<Rightarrow> string list \<times> Synchronizer" where
  "popPendingMetricsUpdate s = (remdups (sy_pendingMetricsUpdate s), s\<lparr>sy_pendingMetricsUpdate := []\<rparr>)"

definition DelayedContainers :: "Synchronizer \<Rightarrow> (string, gotime) gomap \<times> gotime" where
  "DelayedContainers s =
     (sy_delayedContainer s,
      fold (\<lambda>(_, delay) minDelayed. if minDelayed = zero_time \<or> delay < minDelayed then delay else minDelayed)
        (sy_delayedContainer s) zero_time)"

definition SetMQTTConnected :: "gotime \<Rightarrow> bool \<Rightarrow> Synchronizer \<Rightarrow> Synchronizer" where
  "SetMQTTConnected now isConnected s =
     (if time_sub now (sy_startedAt s) < 60 * second then s
      else let shouldUpdateStatus = ((sy_isMQTTConnected s = None \<or> sy_isMQTTConnected s = Some True) \<and> \<not> isConnected);
               s = s\<lparr>sy_isMQTTConnected := Some isConnected\<rparr>
           in if shouldUpdateStatus
              then (requestSynchronizationLocked now ''info'' False s)\<lparr>sy_shouldUpdateMQTTStatus := True\<rparr>
              else s)"

section \<open>Disabled periods\<close>

definition getDisabledUntil :: "gotime \<Rightarrow> Synchronizer \<Rightarrow> gotime \<times> DisableReason \<times> Synchronizer" where
  "getDisabledUntil now s =
     (let s = (if sy_disabledUntil s < now then s\<lparr>sy_disabledUntil := zero_time, sy_disableReason := NotDisabled\<rparr> else s)
      in (sy_disabledUntil s, sy_disableReason s, s))"

definition sync_Disable :: "gotime \<Rightarrow> DisableReason \<Rightarrow> Synchronizer \<Rightarrow> Synchronizer" where
  "sync_Disable until reason s =
     (if sy_disabledUntil s < until then s\<lparr>sy_disabledUntil := until, sy_disableReason := reason\<rparr> else s)"

definition ClearDisable :: "gotime \<Rightarrow> gotime \<Rightarrow> DisableReason \<Rightarrow> duration \<Rightarrow> Synchronizer \<Rightarrow> Synchronizer" where
  "ClearDisable now now' reasonToClear delay s =
     (if now < sy_disabledUntil s \<and> sy_disableReason s = reasonToClear
      then s\<lparr>sy_disabledUntil := now' + delay\<rparr> else s)"

definition shouldCheckDuplicatedLocked :: "gotime \<Rightarrow> gotime \<Rightarrow> bool \<Rightarrow> Synchronizer \<Rightarrow> bool" where
  "shouldCheckDuplicatedLocked now executionStartedAt force s =
     (if \<not> sy_lastDuplicateCheck s < executionStartedAt then False
      else force \<or> \<not> now < sy_nextDuplicateCheck s)"

text \<open>
  The agent facts that differ from the ones this agent registered: \<open>parse\<close> is the date of a fact
  \<open>fact_updated_at\<close>, the zero time when it is missing or not a date.
\<close>

definition isDuplicatedUsingFacts :: "(string \<Rightarrow> gotime) \<Rightarrow> gotime \<Rightarrow> (string, string) gomap \<Rightarrow> (string, string) gomap \<Rightarrow> string option" where
  "isDuplicatedUsingFacts parse agentStartedAt oldFacts newFacts =
     List.find (\<lambda>name.
       case (map_of oldFacts name, map_of newFacts name) of
         (Some old, Some new) \<Rightarrow>
           old \<noteq> new \<and>
           \<not> (name = ''glouton_pid'' \<and>
              (let oldStartedAt = parse (gm_get_or [] oldFacts ''fact_updated_at'');
                   newStartedAt = parse (gm_get_or [] newFacts ''fact_updated_at'')
               in oldStartedAt \<noteq> zero_time \<and> newStartedAt \<noteq> zero_time \<and>
                  oldStartedAt < agentStartedAt \<and> newStartedAt < agentStartedAt))
       | _ \<Rightarrow> False)
     [''fqdn'', ''primary_address'', ''primary_mac_address'', ''glouton_pid'']"

section \<open>Follow-up of errors\<close>

text \<open>
  What the loop of \<open>Run\<close> keeps about errors: the two counters and dates, the two markers in the state
  file, and the number of times it asked MQTT to reconnect.
\<close>

record sync_loop =
  lo_sync :: Synchronizer
  lo_successiveErrors :: nat
  lo_firstErrorAt :: gotime
  lo_successiveAuthErrors :: nat
  lo_firstAuthErrorAt :: gotime
  lo_dysfunctional :: bool
  lo_authBroken :: bool
  lo_reconnections :: nat

text \<open>
  The errors of a run are joined: one of them may be an authentication error, and another one may come from
  throttling.
\<close>

record run_error =
  re_auth :: bool
  re_throttle :: bool

text \<open>
  The delays come from the \<open>delay\<close> package: \<open>d_auth n\<close>, \<open>d_long n\<close> and \<open>d_default n\<close> after \<open>n\<close> errors in a row,
  and the deadline of a throttled client. \<open>ok\<close> says that the state file accepts a write.
\<close>

record loop_delays =
  d_throttle :: gotime
  d_auth :: "nat \<Rightarrow> duration"
  d_long :: "nat \<Rightarrow> duration"
  d_default :: "nat \<Rightarrow> duration"

definition count_error :: "bool \<Rightarrow> gotime \<Rightarrow> sync_loop \<Rightarrow> sync_loop" where
  "count_error ok now s =
     (let s = s\<lparr>lo_successiveErrors := Suc (lo_successiveErrors s)\<rparr>
      in if lo_firstErrorAt s = zero_time then s\<lparr>lo_firstErrorAt := now\<rparr>
         else if 36 * 60 * 60 * second < time_sub now (lo_firstErrorAt s) \<and> \<not> lo_dysfunctional s
         then s\<lparr>lo_dysfunctional := ok\<rparr> else s)"

definition count_auth_error :: "bool \<Rightarrow> gotime \<Rightarrow> run_error \<Rightarrow> sync_loop \<Rightarrow> sync_loop" where
  "count_auth_error ok now err s =
     (if re_auth err
      then let s = s\<lparr>lo_successiveAuthErrors := Suc (lo_successiveAuthErrors s)\<rparr>
           in if lo_firstAuthErrorAt s = zero_time then s\<lparr>lo_firstAuthErrorAt := now\<rparr>
              else if 2 * 60 * 60 * second < time_sub now (lo_firstAuthErrorAt s) \<and> \<not> lo_authBroken s
              then s\<lparr>lo_authBroken := ok\<rparr> else s
      else s\<lparr>lo_firstAuthErrorAt := zero_time, lo_authBroken := (if ok then False else lo_authBroken s)\<rparr>)"

definition disable_after_error :: "loop_delays \<Rightarrow> gotime \<Rightarrow> run_error \<Rightarrow> sync_loop \<Rightarrow> sync_loop" where
  "disable_after_error D now err s =
     (if re_throttle err
      then s\<lparr>lo_sync := sync_Disable (d_throttle D) DisableTooManyRequests (lo_sync s)\<rparr>
      else
        let n = lo_successiveErrors s;
            s = (if lo_authBroken s
                 then s\<lparr>lo_sync := sync_Disable (now + d_auth D n) DisableAuthenticationError (lo_sync s),
                        lo_reconnections := Suc (lo_reconnections s)\<rparr>
                 else if lo_dysfunctional s
                 then s\<lparr>lo_sync := sync_Disable (now + d_long D n) DisableLongStandingError (lo_sync s)\<rparr>
                 else s\<lparr>lo_sync := sync_Disable (now + d_default D n) DisableTooManyErrors (lo_sync s)\<rparr>)
        in if re_auth err \<and> lo_successiveAuthErrors s = 1
           then s\<lparr>lo_reconnections := Suc (lo_reconnections s)\<rparr> else s)"

definition after_runOnce :: "loop_delays \<Rightarrow> bool \<Rightarrow> gotime \<Rightarrow> run_error option \<Rightarrow> sync_loop \<Rightarrow> sync_loop" where
  "after_runOnce D ok now err s =
     (case err of
        Some e \<Rightarrow> disable_after_error D now e (count_auth_error ok now e (count_error ok now s))
      | None \<Rightarrow> s\<lparr>lo_successiveErrors := 0, lo_firstErrorAt := zero_time, lo_successiveAuthErrors := 0,
                  lo_firstAuthErrorAt := zero_time, lo_dysfunctional := (if ok then False else lo_dysfunctional s)\<rparr>)"

section \<open>Requests are merged\<close>

text \<open>A request made by some goroutine: the time, the entity, whether it forces a refresh, and the delay.\<close>

type_synonym sync_call = "gotime \<times> entity_name \<times> bool \<times> duration"

definition request_all :: "sync_call list \<Rightarrow> Synchronizer \<Rightarrow> Synchronizer" where
  "request_all calls s = foldl (\<lambda>s (now, e, force, delay). requestLaterSynchronizationLocked now e force delay s) s calls"

definition call_type :: "sync_call \<Rightarrow> SyncType" where
  "call_type = (\<lambda>(now, e, force, delay). if force then SyncTypeForceCacheRefresh else SyncTypeNormal)"

definition call_deadline :: "sync_call \<Rightarrow> gotime" where
  "call_deadline = (\<lambda>(now, e, force, delay). now + delay)"

text \<open>The request of an entity after one more call.\<close>

lemma request_later_map_of:
  "map_of (sy_forceSync (requestLaterSynchronizationLocked now e force delay s)) =
     (map_of (sy_forceSync s))(e \<mapsto>
       (case map_of (sy_forceSync s) e of
          None \<Rightarrow> \<lparr>rq_Type = (if force then SyncTypeForceCacheRefresh else SyncTypeNormal), rq_Deadline = now + delay\<rparr>
        | Some r \<Rightarrow> r\<lparr>rq_Type := max (rq_Type r) (if force then SyncTypeForceCacheRefresh else SyncTypeNormal),
                       rq_Deadline := min (rq_Deadline r) (now + delay)\<rparr>))"
proof (cases "map_of (sy_forceSync s) e")
  case None
  then show ?thesis by (simp add: requestLaterSynchronizationLocked_def Let_def)
next
  case (Some r)
  then show ?thesis
    by (cases r; cases "rq_Type r") (auto simp: requestLaterSynchronizationLocked_def Let_def max_def min_def)
qed

lemma request_all_None:
  "map_of (sy_forceSync (request_all calls s)) e = None \<longleftrightarrow>
     map_of (sy_forceSync s) e = None \<and> (\<forall>c \<in> set calls. fst (snd c) \<noteq> e)"
  by (induction calls arbitrary: s) (auto simp: request_all_def request_later_map_of split: if_splits)

lemma request_all_Some:
  assumes "map_of (sy_forceSync s) e = Some r"
  shows "map_of (sy_forceSync (request_all calls s)) e =
    Some \<lparr>rq_Type = foldl max (rq_Type r) (map call_type (filter (\<lambda>c. fst (snd c) = e) calls)),
          rq_Deadline = foldl min (rq_Deadline r) (map call_deadline (filter (\<lambda>c. fst (snd c) = e) calls))\<rparr>"
  using assms
proof (induction calls arbitrary: s r)
  case Nil
  then show ?case by (simp add: request_all_def)
next
  case (Cons c calls)
  obtain now e' force delay where c: "c = (now, e', force, delay)" by (cases c)
  show ?case
    using Cons.IH [of "requestLaterSynchronizationLocked now e' force delay s"] Cons.prems c
    by (cases "e' = e") (simp_all add: request_all_def request_later_map_of call_type_def call_deadline_def)
qed

lemma foldl_max_Max: "foldl max x xs = Max (set (x # xs))" for x :: "'a :: linorder"
  unfolding Max.set_eq_fold foldl_conv_fold by (rule arg_cong [of _ _ "\<lambda>f. fold f xs x"]) (simp add: fun_eq_iff max.commute)

lemma foldl_min_Min: "foldl min x xs = Min (set (x # xs))" for x :: "'a :: linorder"
  unfolding Min.set_eq_fold foldl_conv_fold by (rule arg_cong [of _ _ "\<lambda>f. fold f xs x"]) (simp add: fun_eq_iff min.commute)

lemma request_all_append: "request_all (xs @ ys) s = request_all ys (request_all xs s)"
  by (simp add: request_all_def)

text \<open>
  C13 (the strongest type and the earliest deadline win). Whatever the goroutines request and in whatever
  order, the pending request of an entity has the strongest of the requested types and the earliest of
  the requested deadlines, and an entity nobody asked for has no request.
\<close>

theorem requests_merged:
  assumes "sy_forceSync s = []"
  shows "map_of (sy_forceSync (request_all calls s)) e =
    (let mine = filter (\<lambda>c. fst (snd c) = e) calls
     in if mine = [] then None
        else Some \<lparr>rq_Type = Max (set (map call_type mine)), rq_Deadline = Min (set (map call_deadline mine))\<rparr>)"
proof (cases "filter (\<lambda>c. fst (snd c) = e) calls")
  case Nil
  then show ?thesis using request_all_None [of calls s e] assms by (auto simp: filter_empty_conv)
next
  case (Cons c mine)
  obtain xs ys where calls: "calls = xs @ c # ys" "\<forall>c \<in> set xs. fst (snd c) \<noteq> e" "fst (snd c) = e"
    "mine = filter (\<lambda>c. fst (snd c) = e) ys"
    using Cons unfolding filter_eq_Cons_iff by auto
  obtain now force delay where c: "c = (now, e, force, delay)" using calls(3) by (cases c) auto
  let ?s = "request_all xs s"
  have "map_of (sy_forceSync ?s) e = None" using request_all_None calls(2) assms by simp
  then have "map_of (sy_forceSync (requestLaterSynchronizationLocked now e force delay ?s)) e =
      Some \<lparr>rq_Type = call_type c, rq_Deadline = call_deadline c\<rparr>"
    by (simp add: request_later_map_of c call_type_def call_deadline_def)
  from request_all_Some [OF this, of ys] show ?thesis
    using calls(4) Cons
    by (simp add: calls(1) request_all_append c request_all_def foldl_max_Max foldl_min_Min)
qed

definition sync_new :: Synchronizer where
  "sync_new = \<lparr>sy_forceSync = [], sy_nextFullSync = zero_time, sy_fullSyncCount = 0, sy_startedAt = zero_time,
     sy_lastSuccessfulSync = zero_time, sy_lastSync = zero_time, sy_maintenanceMode = False, sy_suspendedMode = False,
     sy_disabledUntil = zero_time, sy_disableReason = NotDisabled, sy_lastDuplicateCheck = zero_time,
     sy_nextDuplicateCheck = zero_time, sy_pendingMetricsUpdate = [], sy_pendingMonitorsUpdate = [],
     sy_delayedContainer = [], sy_isMQTTConnected = None, sy_shouldUpdateMQTTStatus = False\<rparr>"

theorem requests_merged_witness:
  "map_of (sy_forceSync (request_all [(10, ''facts'', True, 600), (15, ''info'', False, 0), (20, ''facts'', False, 30)] sync_new)) ''facts'' =
     Some \<lparr>rq_Type = SyncTypeForceCacheRefresh, rq_Deadline = 50\<rparr>"
  using requests_merged [of sync_new "[(10, ''facts'', True, 600), (15, ''info'', False, 0), (20, ''facts'', False, 30)]" "''facts''"]
  by (simp add: sync_new_def call_type_def call_deadline_def Let_def max_def)

text \<open>
  C40 (the marker of broken credentials survives a success). When the marker of broken credentials is set, a
  successful synchronization leaves it set, so that a single run with an authentication error and without a
  throttling error afterwards disables the synchronizer as if the credentials had been refused for two hours.
\<close>

theorem auth_broken_survives_success:
  assumes "lo_authBroken s" "sy_disabledUntil (lo_sync s) < now' + d_auth D 1" "re_auth err" "\<not> re_throttle err"
  shows "lo_authBroken (after_runOnce D ok now None s) \<and>
         sy_disableReason (lo_sync (after_runOnce D ok now' (Some err) (after_runOnce D ok now None s))) =
           DisableAuthenticationError"
  using assms
  by (simp add: after_runOnce_def disable_after_error_def count_auth_error_def count_error_def sync_Disable_def Let_def)

definition broken_loop :: sync_loop where
  "broken_loop = \<lparr>lo_sync = sync_new, lo_successiveErrors = 9, lo_firstErrorAt = 1, lo_successiveAuthErrors = 9,
     lo_firstAuthErrorAt = 1, lo_dysfunctional = False, lo_authBroken = True, lo_reconnections = 0\<rparr>"

theorem auth_broken_survives_success_witness:
  "lo_authBroken (after_runOnce \<lparr>d_throttle = 0, d_auth = \<lambda>n. 600, d_long = \<lambda>n. 60, d_default = \<lambda>n. 15\<rparr> True 100 None broken_loop) \<and>
   sy_disableReason (lo_sync (after_runOnce \<lparr>d_throttle = 0, d_auth = \<lambda>n. 600, d_long = \<lambda>n. 60, d_default = \<lambda>n. 15\<rparr> True 200 (Some \<lparr>re_auth = True, re_throttle = False\<rparr>)
     (after_runOnce \<lparr>d_throttle = 0, d_auth = \<lambda>n. 600, d_long = \<lambda>n. 60, d_default = \<lambda>n. 15\<rparr> True 100 None broken_loop))) = DisableAuthenticationError"
  by (rule auth_broken_survives_success) (simp_all add: broken_loop_def sync_new_def)

end
