(* ===== verification/SyncLinks.thy ===== *)
theory SyncLinks
  imports SyncState
begin

text \<open>
  The rows of one execution of the synchronization, the requests made on it, and the entities that are
  linked (\<^verbatim>\<open>bleemeo/internal/synchronizer/execution.go\<close>). The closure of the links is the part with a
  termination argument and a reference definition; the phases of an execution are in \<open>SyncExecution\<close>.
\<close>

section \<open>Executions\<close>

record entity =
  en_Name :: entity_name
  en_EnabledInMaintenance :: bool
  en_EnabledInSuspendedMode :: bool

datatype sync_error = ErrSkippedExecution | ErrConnectorTemporaryDisabled | ErrUnexpectedWorkflow | ErrAPI string

record EntityExecution =
  ee_entity :: entity
  ee_prepared :: bool
  ee_syncType :: SyncType
  ee_err :: "sync_error option"
  ee_linkedSyncTargets :: "entity_name list"

abbreviation (input) ee_name :: "EntityExecution \<Rightarrow> entity_name" where
  "ee_name ee \<equiv> en_Name (ee_entity ee)"

record Execution =
  ex_sync :: Synchronizer
  ex_startedAt :: gotime
  ex_onlyEssential :: bool
  ex_isNewAgent :: bool
  ex_isLimitedExecution :: bool
  ex_updateThresholds :: bool
  ex_callUpdateLabels :: bool
  ex_syncListStarted :: bool
  ex_entities :: "EntityExecution list"
  ex_deferredSync :: "(entity_name, SyncRequest) gomap"

definition getEntityExecution :: "entity list \<Rightarrow> (entity_name, SyncType) gomap \<Rightarrow> bool \<Rightarrow> Synchronizer \<Rightarrow> EntityExecution list" where
  "getEntityExecution synchronizers entitySync limitedExec s =
     map (\<lambda>entity. \<lparr>ee_entity = entity, ee_prepared = False, ee_syncType = gm_get_or SyncTypeNone entitySync (en_Name entity),
            ee_err = (if \<not> limitedExec \<and> sy_maintenanceMode s \<and> \<not> en_EnabledInMaintenance entity \<or>
                         \<not> limitedExec \<and> sy_suspendedMode s \<and> \<not> en_EnabledInSuspendedMode entity
                      then Some ErrSkippedExecution else None),
            ee_linkedSyncTargets = []\<rparr>) synchronizers"

definition newExecution :: "entity list \<Rightarrow> gotime \<Rightarrow> bool \<Rightarrow> bool \<Rightarrow> Synchronizer \<Rightarrow> Execution" where
  "newExecution synchronizers startedAt onlyEssential isNewAgent s =
     (let pendingSync = filter (\<lambda>(_, r). startedAt < rq_Deadline r) (sy_forceSync s);
          dueSync = map (\<lambda>(e, r). (e, rq_Type r)) (filter (\<lambda>(_, r). \<not> startedAt < rq_Deadline r) (sy_forceSync s))
      in \<lparr>ex_sync = s\<lparr>sy_forceSync := pendingSync\<rparr>, ex_startedAt = startedAt, ex_onlyEssential = onlyEssential,
          ex_isNewAgent = isNewAgent, ex_isLimitedExecution = False, ex_updateThresholds = False,
          ex_callUpdateLabels = False, ex_syncListStarted = False,
          ex_entities = getEntityExecution synchronizers dueSync False s, ex_deferredSync = pendingSync\<rparr>)"

definition newLimitedExecution :: "entity list \<Rightarrow> gotime \<Rightarrow> bool \<Rightarrow> (entity_name, SyncType) gomap \<Rightarrow> Synchronizer \<Rightarrow> Execution" where
  "newLimitedExecution synchronizers startedAt onlyEssential entities s =
     \<lparr>ex_sync = s, ex_startedAt = startedAt, ex_onlyEssential = onlyEssential, ex_isNewAgent = False,
      ex_isLimitedExecution = True, ex_updateThresholds = False, ex_callUpdateLabels = False,
      ex_syncListStarted = False, ex_entities = getEntityExecution synchronizers entities True s,
      ex_deferredSync = []\<rparr>"

text \<open>Loops that change the first row of an entity and then break.\<close>

fun update_first :: "entity_name \<Rightarrow> (EntityExecution \<Rightarrow> EntityExecution) \<Rightarrow> EntityExecution list \<Rightarrow> EntityExecution list" where
  "update_first n f [] = []"
| "update_first n f (r # rs) = (if ee_name r = n then f r # rs else r # update_first n f rs)"

definition find_row :: "entity_name \<Rightarrow> EntityExecution list \<Rightarrow> EntityExecution option" where
  "find_row n rs = List.find (\<lambda>r. ee_name r = n) rs"

definition RequestSynchronization :: "gotime \<Rightarrow> entity_name \<Rightarrow> bool \<Rightarrow> Execution \<Rightarrow> Execution" where
  "RequestSynchronization now entityName forceCacheRefresh e =
     (if ex_syncListStarted e
      then let s = requestSynchronizationLocked now entityName forceCacheRefresh (ex_sync e);
               targets = (case find_row entityName (ex_entities e) of None \<Rightarrow> [] | Some row \<Rightarrow> ee_linkedSyncTargets row)
           in e\<lparr>ex_sync := fold (\<lambda>target. requestSynchronizationLocked now target forceCacheRefresh) targets s\<rparr>
      else e\<lparr>ex_entities := update_first entityName
               (\<lambda>row. if forceCacheRefresh then row\<lparr>ee_syncType := SyncTypeForceCacheRefresh\<rparr>
                      else if ee_syncType row = SyncTypeNone then row\<lparr>ee_syncType := SyncTypeNormal\<rparr> else row)
               (ex_entities e)\<rparr>)"

definition RequestLinkedSynchronization :: "entity_name \<Rightarrow> entity_name \<Rightarrow> Execution \<Rightarrow> sync_error option \<times> Execution" where
  "RequestLinkedSynchronization targetEntityName triggerEntityName e =
     (if ex_syncListStarted e then (Some ErrUnexpectedWorkflow, e)
      else (None, e\<lparr>ex_entities := map (\<lambda>ee. if ee_name ee \<noteq> triggerEntityName then ee
                      else ee\<lparr>ee_linkedSyncTargets := ee_linkedSyncTargets ee @ [targetEntityName]\<rparr>) (ex_entities e)\<rparr>))"

definition FailOtherEntity :: "entity_name \<Rightarrow> sync_error \<Rightarrow> Execution \<Rightarrow> Execution" where
  "FailOtherEntity entityName reason e =
     e\<lparr>ex_entities := update_first entityName
         (\<lambda>row. if ee_err row = None then row\<lparr>ee_err := Some reason\<rparr> else row) (ex_entities e)\<rparr>"

definition RequestSynchronizationForAll :: "gotime \<Rightarrow> bool \<Rightarrow> Execution \<Rightarrow> Execution" where
  "RequestSynchronizationForAll now forceCacheRefresh e =
     fold (\<lambda>n. RequestSynchronization now n forceCacheRefresh) (map ee_name (ex_entities e)) e"

definition RequestLaterFullSynchronization :: "gotime \<Rightarrow> duration \<Rightarrow> Execution \<Rightarrow> Execution" where
  "RequestLaterFullSynchronization now delay e =
     (if now + delay < sy_nextFullSync (ex_sync e)
      then e\<lparr>ex_sync := (ex_sync e)\<lparr>sy_nextFullSync := now + delay\<rparr>\<rparr> else e)"

definition RequestUpdateThresholds :: "Execution \<Rightarrow> Execution" where
  "RequestUpdateThresholds e = e\<lparr>ex_updateThresholds := True\<rparr>"

definition RequestNotifyLabelsUpdate :: "Execution \<Rightarrow> Execution" where
  "RequestNotifyLabelsUpdate e = e\<lparr>ex_callUpdateLabels := True\<rparr>"

definition IsSynchronizationRequested :: "entity_name \<Rightarrow> Execution \<Rightarrow> bool" where
  "IsSynchronizationRequested entityName e =
     (case find_row entityName (ex_entities e) of None \<Rightarrow> False | Some row \<Rightarrow> ee_syncType row \<noteq> SyncTypeNone)"

definition hadWork :: "Execution \<Rightarrow> bool" where
  "hadWork e = list_ex (\<lambda>ee. ee_syncType ee \<noteq> SyncTypeNone) (ex_entities e)"

definition allForcedCacheRefresh :: "Execution \<Rightarrow> bool" where
  "allForcedCacheRefresh e = list_all (\<lambda>ee. ee_syncType ee = SyncTypeForceCacheRefresh) (ex_entities e)"

definition forceCacheRefreshForAll :: "gotime \<Rightarrow> gotime \<Rightarrow> gotime \<Rightarrow> Execution \<Rightarrow> bool" where
  "forceCacheRefreshForAll now now' nextConfigAt e =
     (if sy_nextFullSync (ex_sync e) < now then True
      else if nextConfigAt \<noteq> zero_time \<and> nextConfigAt < now' then True
      else allForcedCacheRefresh e)"

section \<open>Linked entities\<close>

definition nameToIdx :: "EntityExecution list \<Rightarrow> (entity_name, nat) gomap" where
  "nameToIdx rows = fold (\<lambda>(idx, ee). gm_set (ee_name ee) idx) (enumerate 0 rows) []"

text \<open>The links of an entity, by its index.\<close>

definition links :: "(entity_name, nat) gomap \<Rightarrow> EntityExecution list \<Rightarrow> entity_name \<Rightarrow> entity_name list option" where
  "links idx rows n = map_option (\<lambda>i. ee_linkedSyncTargets (rows ! i)) (map_of idx n)"

text \<open>
  The loop of \<open>recursiveExpand\<close> over the targets: the targets seen so far, and the new targets to
  look at.
\<close>

fun expand_loop :: "(entity_name \<Rightarrow> entity_name list option) \<Rightarrow> entity_name \<Rightarrow> entity_name list \<Rightarrow> entity_name list \<Rightarrow>
    entity_name list \<Rightarrow> entity_name list \<times> entity_name list" where
  "expand_loop lk orig seen new [] = (seen, new)"
| "expand_loop lk orig seen new (target # ts) =
     (if target = orig then expand_loop lk orig seen new ts
      else if target \<in> set seen then expand_loop lk orig seen new ts
      else expand_loop lk orig (target # seen)
             (case lk target of None \<Rightarrow> new | Some extra \<Rightarrow> new @ extra) ts)"

lemma expand_loop_seen: "set (fst (expand_loop lk orig seen new ts)) = set seen \<union> (set ts - {orig})"
  by (induction lk orig seen new ts rule: expand_loop.induct) auto

lemma expand_loop_new:
  "set (snd (expand_loop lk orig seen new ts)) =
     set new \<union> (\<Union>t \<in> (set ts - {orig}) - set seen. \<Union> (set ` set_option (lk t)))"
proof (induction lk orig seen new ts rule: expand_loop.induct)
  case (2 lk orig seen new target ts)
  show ?case
  proof (cases "target = orig \<or> target \<in> set seen")
    case True
    then have "set (target # ts) - {orig} - set seen = set ts - {orig} - set seen" by auto
    then show ?thesis using 2(1,2) True by (cases "target = orig") simp_all
  next
    case False
    then have "set (target # ts) - {orig} - set seen = insert target (set ts - {orig} - set (target # seen))" by auto
    moreover have "set (case lk target of None \<Rightarrow> new | Some extra \<Rightarrow> new @ extra) = set new \<union> \<Union> (set ` set_option (lk target))"
      by (cases "lk target") simp_all
    ultimately show ?thesis using 2(3) False by (simp add: Un_assoc)
  qed
qed simp

lemma expand_loop_sets:
  assumes "expand_loop lk orig seen new ts = (seen', new')"
  shows "set seen' = set seen \<union> (set ts - {orig})"
    and "set new' = set new \<union> (\<Union>t \<in> set seen' - set seen. \<Union> (set ` set_option (lk t)))"
proof -
  show s: "set seen' = set seen \<union> (set ts - {orig})" using expand_loop_seen [of lk orig seen new ts] assms by simp
  then have "set seen' - set seen = set ts - {orig} - set seen" by blast
  then show "set new' = set new \<union> (\<Union>t \<in> set seen' - set seen. \<Union> (set ` set_option (lk t)))"
    using expand_loop_new [of lk orig seen new ts] assms by simp
qed

function recursiveExpand :: "(entity_name, nat) gomap \<Rightarrow> EntityExecution list \<Rightarrow> entity_name \<Rightarrow> entity_name list \<Rightarrow>
    entity_name list \<Rightarrow> entity_name list" where
  "recursiveExpand idx rows orig seen syncTargets =
     (let (seen', newTargets) = expand_loop (links idx rows) orig seen [] syncTargets
      in if newTargets \<noteq> [] then recursiveExpand idx rows orig seen' newTargets else seen')"
  by pat_completeness auto
termination
proof (relation "measure (\<lambda>(idx, rows, orig, seen, ts). card (fst ` set idx - set seen))", goal_cases)
  case (2 idx rows orig seen ts p seen' new)
  then have e: "expand_loop (links idx rows) orig seen [] ts = (seen', new)" by simp
  from 2(3) obtain u where "u \<in> set new" by (cases new) auto
  then have "u \<in> (\<Union>t \<in> set seen' - set seen. \<Union> (set ` set_option (links idx rows t)))"
    using expand_loop_sets(2) [OF e] by simp
  then obtain t l where t: "t \<in> set seen' - set seen" "links idx rows t = Some l" by auto
  then have "t \<in> fst ` set idx" by (auto simp: links_def dest: map_of_SomeD intro: rev_image_eqI)
  moreover have "set seen \<subseteq> set seen'" using expand_loop_sets(1) [OF e] by blast
  ultimately have "fst ` set idx - set seen' \<subset> fst ` set idx - set seen" using t(1) by blast
  then show ?case by (simp add: psubset_card_mono)
qed simp

declare recursiveExpand.simps [simp del]

text \<open>
  The result has the targets seen before and the given targets, is closed under links apart from the
  original entity, and has nothing that is not reached by links.
\<close>

lemma recursiveExpand_closed:
  assumes "\<And>t l. t \<in> set seen \<Longrightarrow> links idx rows t = Some l \<Longrightarrow> set l \<subseteq> set seen \<union> set ts \<union> {orig}"
  shows "set seen \<union> (set ts - {orig}) \<subseteq> set (recursiveExpand idx rows orig seen ts) \<and>
         (\<forall>t \<in> set (recursiveExpand idx rows orig seen ts). \<forall>l. links idx rows t = Some l \<longrightarrow>
            set l \<subseteq> insert orig (set (recursiveExpand idx rows orig seen ts)))"
  using assms
proof (induction idx rows orig seen ts rule: recursiveExpand.induct)
  case (1 idx rows orig seen ts)
  obtain seen' new where e: "expand_loop (links idx rows) orig seen [] ts = (seen', new)" by fastforce
  have s: "set seen' = set seen \<union> (set ts - {orig})" by (rule expand_loop_sets(1) [OF e])
  have n: "set new = (\<Union>t \<in> set seen' - set seen. \<Union> (set ` set_option (links idx rows t)))"
    using expand_loop_sets(2) [OF e] by simp
  have closed: "set l \<subseteq> set seen' \<union> set new \<union> {orig}" if "t \<in> set seen'" "links idx rows t = Some l" for t l
    using that 1(2) [of t l] s n by (cases "t \<in> set seen") auto
  show ?case
  proof (cases "new = []")
    case True
    then have "recursiveExpand idx rows orig seen ts = seen'" by (subst recursiveExpand.simps) (simp add: e)
    then show ?thesis using closed True s by auto
  next
    case False
    then have "recursiveExpand idx rows orig seen ts = recursiveExpand idx rows orig seen' new"
      by (subst recursiveExpand.simps) (simp add: e)
    then show ?thesis using 1(1) [OF e [symmetric] refl False] closed s by auto
  qed
qed

lemma recursiveExpand_sound:
  assumes "\<And>t. t \<in> set seen \<union> set ts \<Longrightarrow> P t" "\<And>t l u. P t \<Longrightarrow> links idx rows t = Some l \<Longrightarrow> u \<in> set l \<Longrightarrow> P u"
    and "orig \<notin> set seen" "t \<in> set (recursiveExpand idx rows orig seen ts)"
  shows "P t \<and> t \<noteq> orig"
  using assms(1,3,4)
proof (induction idx\<equiv>idx rows\<equiv>rows orig\<equiv>orig seen ts rule: recursiveExpand.induct)
  case (1 seen ts)
  obtain seen' new where e: "expand_loop (links idx rows) orig seen [] ts = (seen', new)" by fastforce
  have s: "set seen' = set seen \<union> (set ts - {orig})" by (rule expand_loop_sets(1) [OF e])
  have n: "set new = (\<Union>t \<in> set seen' - set seen. \<Union> (set ` set_option (links idx rows t)))"
    using expand_loop_sets(2) [OF e] by simp
  have P': "P t" if t: "t \<in> set seen' \<union> set new" for t
  proof (cases "t \<in> set seen'")
    case True
    then show ?thesis using 1(2) [of t] s by blast
  next
    case False
    then obtain x l where x: "x \<in> set seen'" "links idx rows x = Some l" "t \<in> set l" using t n by auto
    then have "P x" using 1(2) [of x] s by blast
    then show ?thesis using x(2,3) by (rule assms(2))
  qed
  show ?case
  proof (cases "new = []")
    case True
    then have "recursiveExpand idx rows orig seen ts = seen'" by (subst recursiveExpand.simps) (simp add: e)
    then show ?thesis using 1(3,4) P' s by auto
  next
    case False
    then have "recursiveExpand idx rows orig seen ts = recursiveExpand idx rows orig seen' new"
      by (subst recursiveExpand.simps) (simp add: e)
    then show ?thesis using 1(1) [OF e [symmetric] refl False P'] 1(3,4) s by auto
  qed
qed

definition expand_row :: "(entity_name, nat) gomap \<Rightarrow> nat \<Rightarrow> EntityExecution list \<Rightarrow> EntityExecution list" where
  "expand_row idx i rows =
     rows[i := (rows ! i)\<lparr>ee_linkedSyncTargets :=
       recursiveExpand idx rows (ee_name (rows ! i)) [] (ee_linkedSyncTargets (rows ! i))\<rparr>]"

definition expandLinkedTarget :: "(entity_name, nat) gomap \<Rightarrow> EntityExecution list \<Rightarrow> EntityExecution list" where
  "expandLinkedTarget idx rows = fold (expand_row idx) [0..<length rows] rows"

text \<open>A synchronized entity passes its type on to its targets, which only ever get a stronger one.\<close>

definition raise_row :: "(entity_name, nat) gomap \<Rightarrow> SyncType \<Rightarrow> entity_name \<Rightarrow> EntityExecution list \<Rightarrow> EntityExecution list" where
  "raise_row idx t target rows =
     (case map_of idx target of
        None \<Rightarrow> rows
      | Some i \<Rightarrow>
          if t = SyncTypeForceCacheRefresh then rows[i := (rows ! i)\<lparr>ee_syncType := SyncTypeForceCacheRefresh\<rparr>]
          else if ee_syncType (rows ! i) = SyncTypeNone then rows[i := (rows ! i)\<lparr>ee_syncType := SyncTypeNormal\<rparr>]
          else rows)"

definition raise_targets :: "(entity_name, nat) gomap \<Rightarrow> nat \<Rightarrow> EntityExecution list \<Rightarrow> EntityExecution list" where
  "raise_targets idx i rows =
     (let ee = rows ! i
      in if ee_syncType ee = SyncTypeNone then rows
         else fold (raise_row idx (ee_syncType ee)) (ee_linkedSyncTargets ee) rows)"

definition checkLinkedSynchronization :: "Execution \<Rightarrow> Execution" where
  "checkLinkedSynchronization e =
     (let idx = nameToIdx (ex_entities e); rows = expandLinkedTarget idx (ex_entities e)
      in e\<lparr>ex_entities := fold (raise_targets idx) [0..<length rows] rows\<rparr>)"

section \<open>The linked entities are the reachable ones\<close>

definition link_rel :: "EntityExecution list \<Rightarrow> (entity_name \<times> entity_name) set" where
  "link_rel rows = {(ee_name r, t) | r t. r \<in> set rows \<and> t \<in> set (ee_linkedSyncTargets r)}"

abbreviation (input) names :: "EntityExecution list \<Rightarrow> entity_name list" where
  "names \<equiv> map ee_name"

lemma nameToIdx_snoc: "nameToIdx (rows @ [r]) = gm_set (ee_name r) (length rows) (nameToIdx rows)"
  by (simp add: nameToIdx_def enumerate_append_eq)

lemma nameToIdx_Some:
  assumes "distinct (names rows)"
  shows "map_of (nameToIdx rows) n = Some i \<longleftrightarrow> i < length rows \<and> ee_name (rows ! i) = n"
  using assms
proof (induction rows arbitrary: i rule: rev_induct)
  case Nil
  then show ?case by (simp add: nameToIdx_def)
next
  case (snoc r rows)
  have "ee_name r \<notin> ee_name ` set rows" using snoc.prems by simp
  then have "ee_name (rows ! j) \<noteq> ee_name r" if "j < length rows" for j using that by (metis image_eqI nth_mem)
  moreover have "map_of (nameToIdx rows) n = Some j \<longleftrightarrow> j < length rows \<and> ee_name (rows ! j) = n" for j
    using snoc by simp
  ultimately show ?case by (cases "n = ee_name r") (auto simp: nameToIdx_snoc nth_append less_Suc_eq)
qed

definition idx_ok :: "(entity_name, nat) gomap \<Rightarrow> entity_name list \<Rightarrow> bool" where
  "idx_ok idx ns \<longleftrightarrow> (\<forall>n i. map_of idx n = Some i \<longleftrightarrow> i < length ns \<and> ns ! i = n)"

lemma nameToIdx_ok: "distinct (names rows) \<Longrightarrow> idx_ok (nameToIdx rows) (names rows)"
  by (auto simp: idx_ok_def nameToIdx_Some)

lemma link_rel_nth: "(a, b) \<in> link_rel rows \<longleftrightarrow> (\<exists>i < length rows. a = ee_name (rows ! i) \<and> b \<in> set (ee_linkedSyncTargets (rows ! i)))"
  unfolding link_rel_def by (force simp: in_set_conv_nth)

lemma links_Some:
  assumes "idx_ok idx (names rows)"
  shows "links idx rows n = Some l \<longleftrightarrow> (\<exists>i < length rows. ee_name (rows ! i) = n \<and> ee_linkedSyncTargets (rows ! i) = l)"
  using assms by (auto simp: links_def idx_ok_def)

lemma recursiveExpand_reach:
  assumes "idx_ok idx (names rows)" "i < length rows"
  shows "set (recursiveExpand idx rows (ee_name (rows ! i)) [] (ee_linkedSyncTargets (rows ! i))) =
           {t. (ee_name (rows ! i), t) \<in> (link_rel rows)\<^sup>* \<and> t \<noteq> ee_name (rows ! i)}"
proof -
  let ?o = "ee_name (rows ! i)" and ?ts = "ee_linkedSyncTargets (rows ! i)"
  let ?R = "recursiveExpand idx rows ?o [] ?ts"
  have lo: "links idx rows ?o = Some ?ts" using links_Some [OF assms(1)] assms(2) by auto
  have rel: "(a, b) \<in> link_rel rows \<longleftrightarrow> (\<exists>l. links idx rows a = Some l \<and> b \<in> set l)" for a b
    by (auto simp: link_rel_nth links_Some [OF assms(1)])
  have sound: "(?o, t) \<in> (link_rel rows)\<^sup>* \<and> t \<noteq> ?o" if "t \<in> set ?R" for t
  proof (rule recursiveExpand_sound [where P = "\<lambda>t. (?o, t) \<in> (link_rel rows)\<^sup>*", OF _ _ _ that])
    show "(?o, t) \<in> (link_rel rows)\<^sup>*" if "t \<in> set [] \<union> set ?ts" for t
      using that lo rel by auto
    show "(?o, u) \<in> (link_rel rows)\<^sup>*" if "(?o, t) \<in> (link_rel rows)\<^sup>*" "links idx rows t = Some l" "u \<in> set l" for t l u
      using that rel by (meson rtrancl.rtrancl_into_rtrancl)
  qed simp
  have closed: "set ?ts - {?o} \<subseteq> set ?R"
      "\<forall>t \<in> set ?R. \<forall>l. links idx rows t = Some l \<longrightarrow> set l \<subseteq> insert ?o (set ?R)"
    using recursiveExpand_closed [of "[]" idx rows ?ts ?o] by simp_all
  have "t \<in> insert ?o (set ?R)" if "(?o, t) \<in> (link_rel rows)\<^sup>*" for t
    using that
  proof (induction rule: rtrancl_induct)
    case (step y z)
    then obtain l where l: "links idx rows y = Some l" "z \<in> set l" using rel by blast
    show ?case
    proof (cases "y = ?o")
      case True
      then show ?thesis using l lo closed(1) by auto
    next
      case False
      then have "set l \<subseteq> insert ?o (set ?R)" using step.IH closed(2) l(1) by blast
      then show ?thesis using l(2) by blast
    qed
  qed simp
  then show ?thesis using sound by auto
qed

lemma names_update:
  assumes "ee_name r = ee_name (rows ! i)"
  shows "names (rows[i := r]) = names rows"
proof (cases "i < length rows")
  case True
  then have "(names rows)[i := ee_name r] = names rows" using assms by (intro list_update_same_conv [THEN iffD2]) simp_all
  then show ?thesis by (simp only: map_update)
qed (simp add: list_update_beyond not_less)

lemma expand_row_length [simp]: "length (expand_row idx i rows) = length rows"
  unfolding expand_row_def by (rule length_list_update)

lemma expand_row_names [simp]: "names (expand_row idx i rows) = names rows"
  unfolding expand_row_def by (rule names_update) simp

lemma expand_row_rel:
  assumes "idx_ok idx (names rows)" "i < length rows"
  shows "(link_rel (expand_row idx i rows))\<^sup>* = (link_rel rows)\<^sup>*"
proof -
  let ?o = "ee_name (rows ! i)"
  let ?rows = "expand_row idx i rows"
  have i: "set (ee_linkedSyncTargets (?rows ! i)) = {t. (?o, t) \<in> (link_rel rows)\<^sup>* \<and> t \<noteq> ?o}" "ee_name (?rows ! i) = ?o"
    using recursiveExpand_reach [OF assms] assms(2) by (simp_all add: expand_row_def)
  have j: "j \<noteq> i \<Longrightarrow> ?rows ! j = rows ! j" for j by (simp add: expand_row_def)
  have "link_rel ?rows \<subseteq> (link_rel rows)\<^sup>*"
  proof clarify
    fix a b assume "(a, b) \<in> link_rel ?rows"
    then obtain k where k: "k < length rows" "a = ee_name (?rows ! k)" "b \<in> set (ee_linkedSyncTargets (?rows ! k))"
      by (auto simp: link_rel_nth)
    show "(a, b) \<in> (link_rel rows)\<^sup>*"
    proof (cases "k = i")
      case True
      then show ?thesis using k i by simp
    next
      case False
      then have "(a, b) \<in> link_rel rows" using k j by (auto simp: link_rel_nth)
      then show ?thesis by blast
    qed
  qed
  moreover have "link_rel rows \<subseteq> (link_rel ?rows)\<^sup>*"
  proof clarify
    fix a b assume ab: "(a, b) \<in> link_rel rows"
    then obtain k where k: "k < length rows" "a = ee_name (rows ! k)" "b \<in> set (ee_linkedSyncTargets (rows ! k))"
      by (auto simp: link_rel_nth)
    show "(a, b) \<in> (link_rel ?rows)\<^sup>*"
    proof (cases "k = i \<and> b \<noteq> a")
      case True
      then have "b \<in> set (ee_linkedSyncTargets (?rows ! i))" using i ab k(2) by auto
      then have "(a, b) \<in> link_rel ?rows" using i(2) k(2) True assms(2) by (auto simp: link_rel_nth)
      then show ?thesis by blast
    next
      case False
      then show ?thesis
      proof (cases "b = a")
        case False
        then have "(a, b) \<in> link_rel ?rows" using \<open>\<not> (k = i \<and> b \<noteq> a)\<close> k j [of k] by (auto simp: link_rel_nth)
        then show ?thesis by blast
      qed simp
    qed
  qed
  ultimately show ?thesis by (meson rtrancl_subset_rtrancl subset_antisym)
qed

lemma expandLinkedTarget_prefix:
  assumes "idx_ok idx (names rows)" "k \<le> length rows"
  shows "names (fold (expand_row idx) [0..<k] rows) = names rows \<and>
         (link_rel (fold (expand_row idx) [0..<k] rows))\<^sup>* = (link_rel rows)\<^sup>* \<and>
         (\<forall>j < k. set (ee_linkedSyncTargets (fold (expand_row idx) [0..<k] rows ! j)) =
            {t. (ee_name (rows ! j), t) \<in> (link_rel rows)\<^sup>* \<and> t \<noteq> ee_name (rows ! j)})"
  using assms(2)
proof (induction k)
  case (Suc k)
  let ?rows = "fold (expand_row idx) [0..<k] rows"
  have IH: "names ?rows = names rows" "(link_rel ?rows)\<^sup>* = (link_rel rows)\<^sup>*"
    "\<And>j. j < k \<Longrightarrow> set (ee_linkedSyncTargets (?rows ! j)) =
            {t. (ee_name (rows ! j), t) \<in> (link_rel rows)\<^sup>* \<and> t \<noteq> ee_name (rows ! j)}"
    using Suc by auto
  have len: "length ?rows = length rows" using arg_cong [OF IH(1), of length] by simp
  have k: "k < length ?rows" "idx_ok idx (names ?rows)" using Suc.prems len assms(1) IH(1) by auto
  have nm: "ee_name (?rows ! j) = ee_name (rows ! j)" if "j < length rows" for j
    using IH(1) that len by (metis nth_map)
  have "set (ee_linkedSyncTargets (expand_row idx k ?rows ! j)) =
      {t. (ee_name (rows ! j), t) \<in> (link_rel rows)\<^sup>* \<and> t \<noteq> ee_name (rows ! j)}" if "j < Suc k" for j
  proof (cases "j = k")
    case True
    then show ?thesis using recursiveExpand_reach [OF k(2,1)] k(1) nm [of k] IH(2) len by (simp add: expand_row_def)
  next
    case False
    then show ?thesis using IH(3) [of j] that by (simp add: expand_row_def)
  qed
  then show ?case using expand_row_rel [OF k(2,1)] IH(1,2) by simp
qed simp

lemma expandLinkedTarget_reach:
  assumes "distinct (names rows)"
  shows "names (expandLinkedTarget (nameToIdx rows) rows) = names rows"
    and "i < length rows \<Longrightarrow> set (ee_linkedSyncTargets (expandLinkedTarget (nameToIdx rows) rows ! i)) =
           {t. (ee_name (rows ! i), t) \<in> (link_rel rows)\<^sup>* \<and> t \<noteq> ee_name (rows ! i)}"
  using expandLinkedTarget_prefix [OF nameToIdx_ok [OF assms], of "length rows"]
  by (simp_all add: expandLinkedTarget_def)

section \<open>Synchronization types of linked entities\<close>

text \<open>What the loop of \<open>checkLinkedSynchronization\<close> leaves of a row.\<close>

definition same_row :: "EntityExecution \<Rightarrow> EntityExecution \<Rightarrow> bool" where
  "same_row r r' \<longleftrightarrow> ee_entity r' = ee_entity r \<and> ee_prepared r' = ee_prepared r \<and> ee_err r' = ee_err r \<and>
     ee_linkedSyncTargets r' = ee_linkedSyncTargets r"

lemma same_row_refl [simp]: "same_row r r"
  by (simp add: same_row_def)

lemma same_row_trans: "same_row a b \<Longrightarrow> same_row b c \<Longrightarrow> same_row a c"
  by (simp add: same_row_def)

lemma raise_row_length [simp]: "length (raise_row idx t target rows) = length rows"
  by (simp add: raise_row_def split: option.split)

lemma raise_row_nth:
  assumes "idx_ok idx (names rows)" "t \<noteq> SyncTypeNone" "j < length rows"
  shows "ee_syncType (raise_row idx t target rows ! j) =
           (if ee_name (rows ! j) = target then max (ee_syncType (rows ! j)) t else ee_syncType (rows ! j)) \<and>
         same_row (rows ! j) (raise_row idx t target rows ! j)"
proof (cases "map_of idx target")
  case None
  then have "ee_name (rows ! j) \<noteq> target" using assms(1,3) unfolding idx_ok_def by (metis length_map nth_map option.distinct(1))
  then show ?thesis using None by (simp add: raise_row_def)
next
  case (Some i)
  then have i: "i < length rows" "ee_name (rows ! j) = target \<longleftrightarrow> j = i"
    using assms(1,3) unfolding idx_ok_def by (metis length_map, metis length_map nth_map option.inject)
  show ?thesis
    using Some i assms(2,3) by (cases t; cases "ee_syncType (rows ! i)"; cases "j = i"; simp add: raise_row_def same_row_def max_def)
qed

lemma names_same_rows:
  assumes "length rows' = length rows" "\<And>j. j < length rows \<Longrightarrow> same_row (rows ! j) (rows' ! j)"
  shows "names rows' = names rows"
  using assms by (auto simp: list_eq_iff_nth_eq same_row_def)

lemma raise_fold_nth:
  assumes "idx_ok idx (names rows)" "t \<noteq> SyncTypeNone" "j < length rows"
  shows "length (fold (raise_row idx t) ts rows) = length rows \<and>
         ee_syncType (fold (raise_row idx t) ts rows ! j) =
           (if ee_name (rows ! j) \<in> set ts then max (ee_syncType (rows ! j)) t else ee_syncType (rows ! j)) \<and>
         same_row (rows ! j) (fold (raise_row idx t) ts rows ! j)"
  using assms(1,3)
proof (induction ts arbitrary: rows)
  case (Cons target ts)
  let ?rows = "raise_row idx t target rows"
  note r = raise_row_nth [OF Cons.prems(1) assms(2), of _ target]
  have nm: "names ?rows = names rows" using r by (intro names_same_rows) auto
  then have ok: "idx_ok idx (names ?rows)" using Cons.prems(1) by simp
  have "ee_name (?rows ! j) = ee_name (rows ! j)" using r [OF Cons.prems(2)] by (simp add: same_row_def)
  then show ?case using Cons.IH [OF ok] r [OF Cons.prems(2)] Cons.prems(2) same_row_trans by auto
qed simp

lemma raise_targets_nth:
  assumes "idx_ok idx (names rows)" "i < length rows" "j < length rows"
  shows "ee_syncType (raise_targets idx i rows ! j) =
           (if ee_name (rows ! j) \<in> set (ee_linkedSyncTargets (rows ! i))
            then max (ee_syncType (rows ! j)) (ee_syncType (rows ! i)) else ee_syncType (rows ! j)) \<and>
         same_row (rows ! j) (raise_targets idx i rows ! j) \<and> length (raise_targets idx i rows) = length rows"
proof (cases "ee_syncType (rows ! i) = SyncTypeNone")
  case True
  then show ?thesis by (simp add: raise_targets_def Let_def max_def)
next
  case False
  then show ?thesis using raise_fold_nth [OF assms(1) False assms(3)] by (simp add: raise_targets_def Let_def)
qed

text \<open>
  After the first \<open>k\<close> rows: no type is weaker than at the start or stronger than one that reaches it, and what
  the first \<open>k\<close> rows reach is at least as strong as they were.
\<close>

lemma raise_prefix:
  assumes ok: "idx_ok idx (names rows)"
    and closure: "\<And>i. i < length rows \<Longrightarrow> set (ee_linkedSyncTargets (rows ! i)) =
      {t. (ee_name (rows ! i), t) \<in> L\<^sup>* \<and> t \<noteq> ee_name (rows ! i)}"
    and "k \<le> length rows"
  defines "strongest \<equiv> \<lambda>j. Max {ee_syncType r | r. r \<in> set rows \<and> (ee_name r, ee_name (rows ! j)) \<in> L\<^sup>*}"
  shows "length (fold (raise_targets idx) [0..<k] rows) = length rows \<and>
    (\<forall>j < length rows.
       same_row (rows ! j) (fold (raise_targets idx) [0..<k] rows ! j) \<and>
       ee_syncType (rows ! j) \<le> ee_syncType (fold (raise_targets idx) [0..<k] rows ! j) \<and>
       ee_syncType (fold (raise_targets idx) [0..<k] rows ! j) \<le> strongest j \<and>
       (\<forall>i < k. (ee_name (rows ! i), ee_name (rows ! j)) \<in> L\<^sup>* \<longrightarrow>
          ee_syncType (rows ! i) \<le> ee_syncType (fold (raise_targets idx) [0..<k] rows ! j)))"
  using assms(3)
proof (induction k)
  case 0
  have "ee_syncType (rows ! j) \<le> strongest j" if "j < length rows" for j
    unfolding strongest_def using that by (intro Max_ge) (auto simp: setcompr_eq_image)
  then show ?case by simp
next
  case (Suc k)
  let ?rows = "fold (raise_targets idx) [0..<k] rows"
  have len: "length ?rows = length rows" and same: "\<And>j. j < length rows \<Longrightarrow> same_row (rows ! j) (?rows ! j)"
    and lo: "\<And>j. j < length rows \<Longrightarrow> ee_syncType (rows ! j) \<le> ee_syncType (?rows ! j)"
    and hi: "\<And>j. j < length rows \<Longrightarrow> ee_syncType (?rows ! j) \<le> strongest j"
    and past: "\<And>i j. j < length rows \<Longrightarrow> i < k \<Longrightarrow> (ee_name (rows ! i), ee_name (rows ! j)) \<in> L\<^sup>* \<Longrightarrow>
      ee_syncType (rows ! i) \<le> ee_syncType (?rows ! j)"
    using Suc by auto
  have k: "k < length rows" using Suc.prems by simp
  have nm: "names ?rows = names rows" using len same by (intro names_same_rows) auto
  have lk: "set (ee_linkedSyncTargets (?rows ! k)) = {t. (ee_name (rows ! k), t) \<in> L\<^sup>* \<and> t \<noteq> ee_name (rows ! k)}"
    using closure [OF k] same [OF k] by (simp add: same_row_def)
  have step: "ee_syncType (raise_targets idx k ?rows ! j) =
      (if (ee_name (rows ! k), ee_name (rows ! j)) \<in> L\<^sup>* \<and> ee_name (rows ! j) \<noteq> ee_name (rows ! k)
       then max (ee_syncType (?rows ! j)) (ee_syncType (?rows ! k)) else ee_syncType (?rows ! j)) \<and>
      same_row (rows ! j) (raise_targets idx k ?rows ! j) \<and> length (raise_targets idx k ?rows) = length rows"
    if "j < length rows" for j
    using raise_targets_nth [of idx ?rows k j] ok nm len k that lk same [OF that] same_row_trans
    by (auto simp: same_row_def)
  have mono: "strongest k \<le> strongest j" if "(ee_name (rows ! k), ee_name (rows ! j)) \<in> L\<^sup>*" for j
    unfolding strongest_def using that k
    by (intro Max_mono) (auto simp: setcompr_eq_image intro: rtrancl_trans exI [of _ "rows ! k"])
  show ?case
  proof (intro conjI allI impI)
    show "length (fold (raise_targets idx) [0..<Suc k] rows) = length rows" using step [OF k] by simp
  next
    fix j assume j: "j < length rows"
    show "same_row (rows ! j) (fold (raise_targets idx) [0..<Suc k] rows ! j)" using step [OF j] by simp
    show "ee_syncType (rows ! j) \<le> ee_syncType (fold (raise_targets idx) [0..<Suc k] rows ! j)"
      using step [OF j] lo [OF j] by (auto simp: le_max_iff_disj)
    show "ee_syncType (fold (raise_targets idx) [0..<Suc k] rows ! j) \<le> strongest j"
      using step [OF j] hi [OF j] hi [OF k] mono [of j] by auto
    fix i assume i: "i < Suc k" "(ee_name (rows ! i), ee_name (rows ! j)) \<in> L\<^sup>*"
    show "ee_syncType (rows ! i) \<le> ee_syncType (fold (raise_targets idx) [0..<Suc k] rows ! j)"
    proof (cases "i = k")
      case True
      then show ?thesis
        using step [OF j] lo [OF k] i(2) ok j k unfolding idx_ok_def
        by (cases "ee_name (rows ! j) = ee_name (rows ! k)") (auto simp: le_max_iff_disj, metis length_map nth_map option.inject)
    next
      case False
      then show ?thesis using step [OF j] past [OF j, of i] i by (auto simp: le_max_iff_disj)
    qed
  qed
qed

definition row_core :: "EntityExecution \<Rightarrow> entity \<times> bool \<times> SyncType \<times> sync_error option" where
  "row_core r = (ee_entity r, ee_prepared r, ee_syncType r, ee_err r)"

lemma expand_row_core: "map row_core (expand_row idx i rows) = map row_core rows"
proof (cases "i < length rows")
  case True
  let ?r = "(rows ! i)\<lparr>ee_linkedSyncTargets := recursiveExpand idx rows (ee_name (rows ! i)) [] (ee_linkedSyncTargets (rows ! i))\<rparr>"
  have "row_core ?r = map row_core rows ! i" using True by (simp add: row_core_def)
  then show ?thesis unfolding expand_row_def map_update by (metis list_update_id)
qed (simp add: expand_row_def list_update_beyond not_less)

lemma expandLinkedTarget_core: "map row_core (expandLinkedTarget idx rows) = map row_core rows"
proof -
  have "map row_core (fold (expand_row idx) is rows) = map row_core rows" for "is"
    by (induction "is" arbitrary: rows) (simp_all add: expand_row_core)
  then show ?thesis by (simp add: expandLinkedTarget_def)
qed

lemma reaching_types_core:
  assumes "map row_core rows' = map row_core rows"
  shows "{ee_syncType r | r. r \<in> set rows' \<and> (ee_name r, n) \<in> R} = {ee_syncType r | r. r \<in> set rows \<and> (ee_name r, n) \<in> R}"
proof -
  have eq: "{ee_syncType r | r. r \<in> set rows \<and> (ee_name r, n) \<in> R} =
      {t. \<exists>x \<in> set (map row_core rows). t = fst (snd (snd x)) \<and> (en_Name (fst x), n) \<in> R}" for rows
    by (auto simp: row_core_def)
  show ?thesis unfolding eq [of rows'] eq [of rows] assms ..
qed

text \<open>
  C11 (linked entities are synchronized together). After \<open>checkLinkedSynchronization\<close>, which always ends even
  when the links form a cycle, the targets of an entity are exactly the entities it reaches through
  links, and its synchronization type is the strongest of the types of the entities that reach it.
\<close>

theorem linked_sync_types:
  assumes "distinct (map (\<lambda>r. en_Name (ee_entity r)) (ex_entities e))" "i < length (ex_entities e)"
  shows "ee_entity (ex_entities (checkLinkedSynchronization e) ! i) = ee_entity (ex_entities e ! i) \<and>
    set (ee_linkedSyncTargets (ex_entities (checkLinkedSynchronization e) ! i)) =
      {t. (ee_name (ex_entities e ! i), t) \<in> (link_rel (ex_entities e))\<^sup>* \<and> t \<noteq> ee_name (ex_entities e ! i)} \<and>
    ee_syncType (ex_entities (checkLinkedSynchronization e) ! i) =
      Max {ee_syncType r | r. r \<in> set (ex_entities e) \<and> (ee_name r, ee_name (ex_entities e ! i)) \<in> (link_rel (ex_entities e))\<^sup>*}"
proof -
  let ?rows = "ex_entities e" and ?idx = "nameToIdx (ex_entities e)"
  let ?x = "expandLinkedTarget ?idx ?rows" and ?L = "link_rel ?rows"
  have nm: "names ?x = names ?rows" by (rule expandLinkedTarget_reach [OF assms(1)])
  have len: "length ?x = length ?rows" using arg_cong [OF nm, of length] by simp
  have name: "ee_name (?x ! j) = ee_name (?rows ! j)" if "j < length ?rows" for j using nm len that by (metis nth_map)
  have core: "ee_entity (?x ! i) = ee_entity (?rows ! i)"
    using expandLinkedTarget_core [of ?idx ?rows] assms(2) len by (metis fst_conv nth_map row_core_def)
  have ok: "idx_ok ?idx (names ?x)" using nameToIdx_ok [OF assms(1)] nm by simp
  have closure: "set (ee_linkedSyncTargets (?x ! j)) = {t. (ee_name (?x ! j), t) \<in> ?L\<^sup>* \<and> t \<noteq> ee_name (?x ! j)}"
    if "j < length ?x" for j
    using expandLinkedTarget_reach(2) [OF assms(1), of j] that len name by simp
  let ?y = "fold (raise_targets ?idx) [0..<length ?x] ?x"
  let ?M = "Max {ee_syncType r | r. r \<in> set ?x \<and> (ee_name r, ee_name (?x ! i)) \<in> ?L\<^sup>*}"
  have i: "i < length ?x" using assms(2) len by simp
  have p: "same_row (?x ! i) (?y ! i)" "ee_syncType (?y ! i) \<le> ?M"
    "\<And>j. j < length ?x \<Longrightarrow> (ee_name (?x ! j), ee_name (?x ! i)) \<in> ?L\<^sup>* \<Longrightarrow> ee_syncType (?x ! j) \<le> ee_syncType (?y ! i)"
    using raise_prefix [OF ok closure order_refl] i by blast+
  have "?M \<le> ee_syncType (?y ! i)"
    using p(3) i by (intro Max.boundedI) (auto simp: setcompr_eq_image in_set_conv_nth)
  then have "ee_syncType (?y ! i) = ?M" using p(2) by simp
  moreover have "?M = Max {ee_syncType r | r. r \<in> set ?rows \<and> (ee_name r, ee_name (?rows ! i)) \<in> ?L\<^sup>*}"
    by (simp only: reaching_types_core [OF expandLinkedTarget_core] name [OF assms(2)])
  ultimately show ?thesis
    using p(1) core closure [OF i] name [OF assms(2)]
    by (simp add: checkLinkedSynchronization_def Let_def same_row_def)
qed

definition demo_row :: "string \<Rightarrow> SyncType \<Rightarrow> string \<Rightarrow> EntityExecution" where
  "demo_row n t target = \<lparr>ee_entity = \<lparr>en_Name = n, en_EnabledInMaintenance = False, en_EnabledInSuspendedMode = False\<rparr>,
     ee_prepared = False, ee_syncType = t, ee_err = None, ee_linkedSyncTargets = [target]\<rparr>"

definition demo_execution :: Execution where
  "demo_execution = (newExecution [] 0 False False sync_new)\<lparr>ex_entities :=
     [demo_row ''a'' SyncTypeForceCacheRefresh ''b'', demo_row ''b'' SyncTypeNone ''c'', demo_row ''c'' SyncTypeNone ''a'']\<rparr>"

theorem linked_sync_types_witness:
  "ee_syncType (ex_entities (checkLinkedSynchronization demo_execution) ! 2) = SyncTypeForceCacheRefresh"
proof -
  let ?rows = "ex_entities demo_execution"
  have rows: "?rows = [demo_row ''a'' SyncTypeForceCacheRefresh ''b'', demo_row ''b'' SyncTypeNone ''c'', demo_row ''c'' SyncTypeNone ''a'']"
    by (simp add: demo_execution_def)
  have "(''a'', ''b'') \<in> link_rel ?rows" unfolding link_rel_nth by (rule exI [of _ 0]) (simp add: rows demo_row_def)
  moreover have "(''b'', ''c'') \<in> link_rel ?rows" unfolding link_rel_nth by (rule exI [of _ 1]) (simp add: rows demo_row_def)
  ultimately have "(''a'', ''c'') \<in> (link_rel ?rows)\<^sup>*" by (meson r_into_rtrancl rtrancl_trans)
  then have "SyncTypeForceCacheRefresh \<in>
      {ee_syncType r | r. r \<in> set ?rows \<and> (ee_name r, ee_name (?rows ! 2)) \<in> (link_rel ?rows)\<^sup>*}"
    by (auto simp: rows demo_row_def intro!: exI [of _ "demo_row ''a'' SyncTypeForceCacheRefresh ''b''"])
  then have "SyncTypeForceCacheRefresh \<le>
      Max {ee_syncType r | r. r \<in> set ?rows \<and> (ee_name r, ee_name (?rows ! 2)) \<in> (link_rel ?rows)\<^sup>*}"
    by (intro Max_ge) (auto simp: setcompr_eq_image)
  then show ?thesis using linked_sync_types [of demo_execution 2] by (simp add: rows demo_row_def)
qed

end
