(* ===== verification/SyncExecution.thy ===== *)
theory SyncExecution
  imports SyncLinks
begin

text \<open>
  One execution of the synchronization with the Bleemeo API (\<^verbatim>\<open>bleemeo/internal/synchronizer/execution.go\<close>, the
  requests of \<^verbatim>\<open>compatibility.go\<close>, and \<open>runOnce\<close> of \<^verbatim>\<open>sync.go\<close>). The synchronizers of the entities are components of
  their own behind an interface: what they do in an execution, that is the calls they make on it and
  what they return, is an argument. The clock is read once per row and phase.
\<close>

section \<open>Calls made during an execution\<close>

text \<open>
  The calls of the entities on the execution and on the synchronizer, and the requests other
  goroutines make in the meantime.
\<close>

datatype exec_call =
    CallRequest gotime entity_name bool
  | CallLinked entity_name entity_name
  | CallFail entity_name sync_error
  | CallForAll gotime bool
  | CallLaterFull gotime duration
  | CallUpdateThresholds
  | CallNotifyLabels
  | CallDisable gotime DisableReason
  | OtherMaintenance bool
  | OtherSuspended bool
  | OtherRequest gotime entity_name bool duration

fun exec_apply :: "exec_call \<Rightarrow> Execution \<Rightarrow> Execution" where
  "exec_apply (CallRequest now n force) e = RequestSynchronization now n force e"
| "exec_apply (CallLinked target trigger) e = snd (RequestLinkedSynchronization target trigger e)"
| "exec_apply (CallFail n reason) e = FailOtherEntity n reason e"
| "exec_apply (CallForAll now force) e = RequestSynchronizationForAll now force e"
| "exec_apply (CallLaterFull now delay) e = RequestLaterFullSynchronization now delay e"
| "exec_apply CallUpdateThresholds e = RequestUpdateThresholds e"
| "exec_apply CallNotifyLabels e = RequestNotifyLabelsUpdate e"
| "exec_apply (CallDisable until reason) e = e\<lparr>ex_sync := sync_Disable until reason (ex_sync e)\<rparr>"
| "exec_apply (OtherMaintenance b) e = e\<lparr>ex_sync := (ex_sync e)\<lparr>sy_maintenanceMode := b\<rparr>\<rparr>"
| "exec_apply (OtherSuspended b) e = e\<lparr>ex_sync := (ex_sync e)\<lparr>sy_suspendedMode := b\<rparr>\<rparr>"
| "exec_apply (OtherRequest now n force delay) e = e\<lparr>ex_sync := requestLaterSynchronizationLocked now n force delay (ex_sync e)\<rparr>"

text \<open>
  What the synchronizer of an entity does: the calls and the result of \<open>PrepareExecution\<close> (an error, and whether
  there is something to execute), of \<open>NeedSynchronization\<close>, of \<open>RefreshCache\<close> and of \<open>SyncRemoteAndLocal\<close>.
\<close>

record entity_script =
  sc_prepare :: "exec_call list \<times> sync_error option \<times> bool"
  sc_need :: "exec_call list \<times> (sync_error + bool)"
  sc_refresh :: "exec_call list \<times> sync_error option"
  sc_sync :: "exec_call list \<times> sync_error option"

datatype sync_phase = PhaseNeed | PhaseRefresh | PhaseSync

section \<open>The phases\<close>

text \<open>
  The function a phase calls on a copy of the row, whose result is then stored in the row. The answer
  also says if the method of the entity was called.
\<close>

definition need_call :: "entity_script \<Rightarrow> EntityExecution \<Rightarrow> Execution \<Rightarrow> EntityExecution \<times> Execution \<times> bool" where
  "need_call sc ee e =
     (let (calls, r) = sc_need sc; e = fold exec_apply calls e
      in case r of
           Inl err \<Rightarrow> (ee\<lparr>ee_err := Some err\<rparr>, e, True)
         | Inr need \<Rightarrow> (if need \<and> ee_syncType ee = SyncTypeNone then ee\<lparr>ee_syncType := SyncTypeNormal\<rparr> else ee, e, True))"

definition refresh_call :: "entity_script \<Rightarrow> EntityExecution \<Rightarrow> Execution \<Rightarrow> EntityExecution \<times> Execution \<times> bool" where
  "refresh_call sc ee e =
     (if ee_syncType ee = SyncTypeNone then (ee, e, False)
      else let (calls, err) = sc_refresh sc in (ee\<lparr>ee_err := err\<rparr>, fold exec_apply calls e, True))"

definition remote_call :: "entity_script \<Rightarrow> EntityExecution \<Rightarrow> Execution \<Rightarrow> EntityExecution \<times> Execution \<times> bool" where
  "remote_call sc ee e =
     (if ee_syncType ee = SyncTypeNone then (ee, e, False)
      else let (calls, err) = sc_sync sc in (ee\<lparr>ee_err := err\<rparr>, fold exec_apply calls e, True))"

lemmas phase_defs = need_call_def refresh_call_def remote_call_def

fun phase_call :: "(entity_name \<Rightarrow> entity_script) \<Rightarrow> sync_phase \<Rightarrow> EntityExecution \<Rightarrow> Execution \<Rightarrow> EntityExecution \<times> Execution \<times> bool" where
  "phase_call sc PhaseNeed ee e = need_call (sc (ee_name ee)) ee e"
| "phase_call sc PhaseRefresh ee e = refresh_call (sc (ee_name ee)) ee e"
| "phase_call sc PhaseSync ee e = remote_call (sc (ee_name ee)) ee e"

definition set_err :: "nat \<Rightarrow> sync_error \<Rightarrow> Execution \<Rightarrow> Execution" where
  "set_err i err e = e\<lparr>ex_entities := (ex_entities e)[i := (ex_entities e ! i)\<lparr>ee_err := Some err\<rparr>]\<rparr>"

definition prepare_row :: "(entity_name \<Rightarrow> entity_script) \<Rightarrow> nat \<Rightarrow> Execution \<Rightarrow> Execution" where
  "prepare_row sc i e =
     (if ee_prepared (ex_entities e ! i) then e
      else let (calls, err, ready) = sc_prepare (sc (ee_name (ex_entities e ! i)));
               e = fold exec_apply calls e
           in e\<lparr>ex_entities := (ex_entities e)[i := (ex_entities e ! i)\<lparr>ee_prepared := ready, ee_err := err\<rparr>]\<rparr>)"

text \<open>The calls of the phases on the entities are recorded in a trace, in order.\<close>

type_synonym sync_trace = "(sync_phase \<times> entity_name) list"

definition call_row :: "(entity_name \<Rightarrow> entity_script) \<Rightarrow> sync_phase \<Rightarrow> (nat \<Rightarrow> gotime) \<Rightarrow> nat \<Rightarrow> Execution \<times> sync_trace \<Rightarrow> Execution \<times> sync_trace" where
  "call_row sc ph clk i = (\<lambda>(e, tr).
     if ee_err (ex_entities e ! i) \<noteq> None then (e, tr)
     else
       let (until, reason, s) = getDisabledUntil (clk i) (ex_sync e); e = e\<lparr>ex_sync := s\<rparr>;
           entity = ee_entity (ex_entities e ! i)
       in if clk i < until then (if reason \<noteq> DisableAgentTooOld then set_err i ErrConnectorTemporaryDisabled e else e, tr)
          else if \<not> ex_isLimitedExecution e \<and> sy_maintenanceMode s \<and> \<not> en_EnabledInMaintenance entity
          then (set_err i ErrSkippedExecution e, tr)
          else if \<not> ex_isLimitedExecution e \<and> sy_suspendedMode s \<and> \<not> en_EnabledInSuspendedMode entity
          then (set_err i ErrSkippedExecution e, tr)
          else
            let e = prepare_row sc i e; ee = ex_entities e ! i
            in if ee_err ee \<noteq> None then (e, tr)
               else if ee_prepared ee
               then let (ee', e, called) = phase_call sc ph ee e
                    in (e\<lparr>ex_entities := (ex_entities e)[i := ee']\<rparr>, if called then tr @ [(ph, ee_name ee)] else tr)
               else (e, tr))"

text \<open>\<open>ctx\<close> is the number of rows for which the context is still alive, over all phases.\<close>

definition synchronizersCall :: "(entity_name \<Rightarrow> entity_script) \<Rightarrow> sync_phase \<Rightarrow> nat \<Rightarrow> (nat \<Rightarrow> gotime) \<Rightarrow> Execution \<times> sync_trace \<Rightarrow> Execution \<times> sync_trace" where
  "synchronizersCall sc ph ctx clk st = fold (call_row sc ph clk) [0..<min ctx (length (ex_entities (fst st)))] st"

definition dropFulfilledLaterRequests :: "Execution \<Rightarrow> Execution" where
  "dropFulfilledLaterRequests e =
     (if ex_isLimitedExecution e then e
      else e\<lparr>ex_sync := fold (\<lambda>row s.
        if ee_syncType row = SyncTypeNone then s
        else case map_of (ex_deferredSync e) (ee_name row) of
               None \<Rightarrow> s
             | Some deferred \<Rightarrow>
                 if ee_syncType row < rq_Type deferred then s
                 else case map_of (sy_forceSync s) (ee_name row) of
                        None \<Rightarrow> s
                      | Some current \<Rightarrow>
                          if rq_Type current = rq_Type deferred \<and> rq_Deadline current = rq_Deadline deferred
                          then s\<lparr>sy_forceSync := gm_del (ee_name row) (sy_forceSync s)\<rparr> else s)
        (ex_entities e) (ex_sync e)\<rparr>)"

text \<open>The end of \<open>run\<close> for one row: what must be requested again.\<close>

definition finish_row :: "gotime \<Rightarrow> EntityExecution \<Rightarrow> Execution \<Rightarrow> Execution" where
  "finish_row now ee e =
     (if ee_syncType ee = SyncTypeNone then e
      else
        let force = (ee_syncType ee = SyncTypeForceCacheRefresh);
            e = (if ee_err ee = Some ErrSkippedExecution then RequestSynchronization now (ee_name ee) force e else e)
        in if ex_onlyEssential e then RequestSynchronization now (ee_name ee) force e else e)"

definition run_errors :: "Execution \<Rightarrow> (entity_name \<times> sync_error) list" where
  "run_errors e =
     concat (map (\<lambda>ee. case ee_err ee of
        Some err \<Rightarrow> if err \<noteq> ErrSkippedExecution then [(ee_name ee, err)] else []
      | None \<Rightarrow> []) (ex_entities e))"

section \<open>Requests of the compatibility layer\<close>

record synchronizerState =
  ss_lastFactUpdatedAt :: string
  ss_lastSNMPcount :: int
  ss_lastVSphereUpdate :: gotime
  ss_metricRetryAt :: gotime
  ss_lastMetricCount :: nat
  ss_lastMaintenanceSync :: gotime
  ss_configSyncDone :: bool

text \<open>What the other components of the agent answer.\<close>

record compat_input =
  ci_factUpdatedAt :: string
  ci_SNMPCount :: int
  ci_lastVSphereChange :: gotime
  ci_lastDiscovery :: gotime
  ci_metricCount :: nat
  ci_mqttIsConnected :: bool
  ci_lastAnnotationChange :: gotime
  ci_nextConfigAt :: gotime

definition compatibilitySyncToPerform :: "gotime \<Rightarrow> compat_input \<Rightarrow> synchronizerState \<Rightarrow> Execution \<Rightarrow> synchronizerState \<times> Execution" where
  "compatibilitySyncToPerform now c st e =
     (let e = (if ci_nextConfigAt c \<noteq> zero_time \<and> ci_nextConfigAt c < ex_startedAt e
               then RequestSynchronizationForAll now True e else e);
          e = (if ss_lastFactUpdatedAt st \<noteq> ci_factUpdatedAt c then RequestSynchronization now ''facts'' False e else e);
          (st, e) = (if ss_lastSNMPcount st \<noteq> ci_SNMPCount c
                     then (st\<lparr>ss_lastSNMPcount := ci_SNMPCount c\<rparr>,
                           RequestSynchronization now ''snmp'' False (RequestSynchronization now ''facts'' False e))
                     else (st, e));
          (st, e) = (if ss_lastVSphereUpdate st < ci_lastVSphereChange c
                     then (st\<lparr>ss_lastVSphereUpdate := ci_lastVSphereChange c\<rparr>, RequestSynchronization now ''vsphere'' False e)
                     else (st, e));
          e = (if \<not> ss_configSyncDone st then RequestSynchronization now ''gloutonconfig'' True e else e);
          e = (if sy_lastSuccessfulSync (ex_sync e) < ci_lastDiscovery c \<or>
                  snd (DelayedContainers (ex_sync e)) \<noteq> zero_time \<and> snd (DelayedContainers (ex_sync e)) < ex_startedAt e
               then RequestSynchronization now ''container'' False e else e);
          e = (if IsSynchronizationRequested ''container'' e then RequestSynchronization now ''metric'' False e else e);
          e = (if IsSynchronizationRequested ''monitor'' e then RequestSynchronization now ''metric'' False e else e);
          e = (if ss_metricRetryAt st < ex_startedAt e \<or> sy_lastSuccessfulSync (ex_sync e) < ci_lastDiscovery c \<or>
                  sy_lastSuccessfulSync (ex_sync e) < ci_lastAnnotationChange c \<or> ss_lastMetricCount st \<noteq> ci_metricCount c
               then RequestSynchronization now ''metric'' False e else e)
      in if sy_maintenanceMode (ex_sync e) \<and> \<not> ci_mqttIsConnected c \<and>
            ss_lastMaintenanceSync st + 15 * 60 * second < ex_startedAt e
         then (st\<lparr>ss_lastMaintenanceSync := ex_startedAt e\<rparr>, RequestSynchronization now ''info'' False e)
         else (st, e))"

section \<open>A whole execution\<close>

text \<open>
  The inputs of \<open>run\<close>: the entities, the compatibility layer, the clock of each phase, the rows for which the
  context is alive, the date of the last information of the API, and the answer of the check for
  duplicated agents with the calls it makes.
\<close>

record run_input =
  in_scripts :: "entity_name \<Rightarrow> entity_script"
  in_compat :: compat_input
  in_state :: synchronizerState
  in_now :: gotime
  in_clock :: "sync_phase \<Rightarrow> nat \<Rightarrow> gotime"
  in_ctx :: nat
  in_infoFetchedAt :: gotime
  in_duplicate :: "exec_call list \<times> sync_error option"
  in_end :: gotime
  in_ctxDone :: bool

definition run_begin :: "run_input \<Rightarrow> Execution \<times> sync_trace \<Rightarrow> Execution \<times> sync_trace" where
  "run_begin I = (\<lambda>(e, tr).
     if ex_isLimitedExecution e then (e, tr)
     else
       let e = (if forceCacheRefreshForAll (in_now I) (in_now I) (ci_nextConfigAt (in_compat I)) e
                then RequestSynchronizationForAll (in_now I) True e else e);
           (st, e) = compatibilitySyncToPerform (in_now I) (in_compat I) (in_state I) e;
           (e, tr) = synchronizersCall (in_scripts I) PhaseNeed (in_ctx I) (in_clock I PhaseNeed) (e, tr)
       in if hadWork e \<and> 30 * 60 * second < time_sub (in_now I) (in_infoFetchedAt I)
          then (RequestSynchronization (in_now I) ''info'' False e, tr) else (e, tr))"

definition check_duplicated :: "run_input \<Rightarrow> Execution \<Rightarrow> Execution" where
  "check_duplicated I e =
     (if \<not> ex_isLimitedExecution e \<and> hadWork e
      then let (calls, err) = in_duplicate I; e = fold exec_apply calls e
           in case err of
                None \<Rightarrow> e
              | Some x \<Rightarrow> e\<lparr>ex_entities := map (\<lambda>ee. if ee_syncType ee \<noteq> SyncTypeNone \<and> ee_err ee = None
                            then ee\<lparr>ee_err := Some x\<rparr> else ee) (ex_entities e)\<rparr>
      else e)"

definition run_calls :: "run_input \<Rightarrow> Execution \<Rightarrow> Execution \<times> sync_trace" where
  "run_calls I e =
     (let n = length (ex_entities e);
          (e, tr) = run_begin I (e, []);
          e = (dropFulfilledLaterRequests (checkLinkedSynchronization e))\<lparr>ex_syncListStarted := True\<rparr>;
          e = check_duplicated I e;
          st = synchronizersCall (in_scripts I) PhaseRefresh (in_ctx I - n) (in_clock I PhaseRefresh) (e, tr)
      in synchronizersCall (in_scripts I) PhaseSync (in_ctx I - 2 * n) (in_clock I PhaseSync) st)"

datatype run_result = ContextError | RunErrors "(entity_name \<times> sync_error) list"

definition run :: "run_input \<Rightarrow> Execution \<Rightarrow> Execution \<times> sync_trace \<times> run_result" where
  "run I e =
     (let (e, tr) = run_calls I e
      in (fold (finish_row (in_end I)) (ex_entities e) e, tr,
          if in_ctxDone I then ContextError else RunErrors (run_errors e)))"

text \<open>
  The calls after a run: the threshold update, with a flag that asks for all of them for a new agent, and
  the notification of the hooks.
\<close>

definition executePostRunCalls :: "Execution \<Rightarrow> bool option \<times> bool" where
  "executePostRunCalls e =
     (if ex_isNewAgent e then Some True else if ex_updateThresholds e then Some False else None, ex_callUpdateLabels e)"

text \<open>The end of \<open>runOnce\<close>: \<open>delay\<close> is the delay until the next full synchronization.\<close>

definition runOnce_end :: "gotime \<Rightarrow> gotime \<Rightarrow> gotime \<Rightarrow> (nat \<Rightarrow> duration) \<Rightarrow> bool \<Rightarrow> Execution \<Rightarrow> Synchronizer" where
  "runOnce_end startAt now nextConfigAt delay failed e =
     (let s = ex_sync e;
          s = (if forceCacheRefreshForAll now now nextConfigAt e \<and> \<not> failed
               then s\<lparr>sy_fullSyncCount := Suc (sy_fullSyncCount s),
                      sy_nextFullSync := now + delay (Suc (sy_fullSyncCount s))\<rparr> else s);
          s = (if \<not> failed then s\<lparr>sy_lastSuccessfulSync := startAt\<rparr> else s)
      in s\<lparr>sy_lastSync := startAt\<rparr>)"

section \<open>Rows only grow\<close>

text \<open>
  Nothing that happens during an execution changes an error that was set or makes a synchronization type
  weaker, and the entities of the rows stay.
\<close>

definition grows_row :: "EntityExecution \<Rightarrow> EntityExecution \<Rightarrow> bool" where
  "grows_row r r' \<longleftrightarrow> ee_entity r' = ee_entity r \<and> (ee_err r \<noteq> None \<longrightarrow> ee_err r' = ee_err r) \<and> ee_syncType r \<le> ee_syncType r'"

definition grows :: "EntityExecution list \<Rightarrow> EntityExecution list \<Rightarrow> bool" where
  "grows rs rs' \<longleftrightarrow> list_all2 grows_row rs rs'"

named_theorems grows_intros

lemma grows_row_refl [simp, grows_intros]: "grows_row r r"
  by (simp add: grows_row_def)

lemma grows_refl [simp, grows_intros]: "grows rs rs"
  by (simp add: grows_def list_all2_refl)

lemma grows_trans: "grows a b \<Longrightarrow> grows b c \<Longrightarrow> grows a c"
proof -
  have "grows_row x z" if "grows_row x y" "grows_row y z" for x y z
    using that unfolding grows_row_def by (metis order_trans)
  then show "grows a b \<Longrightarrow> grows b c \<Longrightarrow> grows a c" unfolding grows_def using list_all2_trans by blast
qed

lemma grows_nth: "grows rs rs' \<Longrightarrow> i < length rs \<Longrightarrow> grows_row (rs ! i) (rs' ! i)"
  by (simp add: grows_def list_all2_nthD)

lemma grows_length: "grows rs rs' \<Longrightarrow> length rs' = length rs"
  by (simp add: grows_def list_all2_lengthD)

lemma grows_entities: "grows rs rs' \<Longrightarrow> map ee_entity rs' = map ee_entity rs"
  unfolding grows_def by (induction rule: list_all2_induct) (simp_all add: grows_row_def)

lemma grows_names: "grows rs rs' \<Longrightarrow> names rs' = names rs"
  using grows_entities [of rs rs'] by (metis (no_types, lifting) list.map_comp map_eq_conv comp_def)

lemma grows_map: "(\<And>r. r \<in> set rs \<Longrightarrow> grows_row r (f r)) \<Longrightarrow> grows rs (map f rs)"
  by (simp add: grows_def list_all2_conv_all_nth)

lemma grows_update_first: "(\<And>r. grows_row r (f r)) \<Longrightarrow> grows rs (update_first n f rs)"
  unfolding grows_def by (induction rs) (auto simp: list_all2_refl)

lemma grows_update:
  assumes "grows rs rs'" "i < length rs \<Longrightarrow> grows_row (rs ! i) r"
  shows "grows rs (rs'[i := r])"
proof (cases "i < length rs")
  case True
  then show ?thesis using assms by (simp add: grows_def list_all2_conv_all_nth nth_list_update)
next
  case False
  then show ?thesis using assms(1) grows_length [OF assms(1)] by (simp add: list_update_beyond)
qed

lemma RequestSynchronization_grows: "grows (ex_entities e) (ex_entities (RequestSynchronization now n force e))"
  by (auto simp: RequestSynchronization_def Let_def grows_row_def intro!: grows_update_first)

lemma fold_grows:
  assumes "\<And>x e. grows (ex_entities e) (ex_entities (f x e))"
  shows "grows (ex_entities e) (ex_entities (fold f xs e))"
proof (induction xs arbitrary: e)
  case (Cons x xs)
  show ?case using grows_trans [OF assms Cons.IH] by simp
qed simp

lemma RequestSynchronizationForAll_grows: "grows (ex_entities e) (ex_entities (RequestSynchronizationForAll now force e))"
  unfolding RequestSynchronizationForAll_def by (rule fold_grows) (rule RequestSynchronization_grows)

lemma exec_apply_grows: "grows (ex_entities e) (ex_entities (exec_apply c e))"
  by (cases c) (auto simp: RequestSynchronization_grows RequestSynchronizationForAll_grows RequestLinkedSynchronization_def
      FailOtherEntity_def RequestLaterFullSynchronization_def RequestUpdateThresholds_def RequestNotifyLabelsUpdate_def
      grows_row_def intro!: grows_map grows_update_first)

lemma calls_grow: "grows (ex_entities e) (ex_entities (fold exec_apply cs e))"
  by (rule fold_grows) (rule exec_apply_grows)

lemma set_err_grows:
  "ee_err (ex_entities e ! i) = None \<Longrightarrow> grows (ex_entities e) (ex_entities (set_err i err e))"
  by (auto simp: set_err_def grows_row_def intro!: grows_update)

lemma prepare_row_grows:
  assumes "ee_err (ex_entities e ! i) = None"
  shows "grows (ex_entities e) (ex_entities (prepare_row sc i e))"
proof (cases "ee_prepared (ex_entities e ! i)")
  case False
  obtain calls err ready where p: "sc_prepare (sc (ee_name (ex_entities e ! i))) = (calls, err, ready)" by (rule prod_cases3)
  let ?e = "fold exec_apply calls e"
  have g: "grows (ex_entities e) (ex_entities ?e)" by (rule calls_grow)
  have "grows (ex_entities e) ((ex_entities ?e)[i := (ex_entities ?e ! i)\<lparr>ee_prepared := ready, ee_err := err\<rparr>])"
    using g grows_nth [OF g, of i] assms by (intro grows_update) (auto simp: grows_row_def)
  then show ?thesis using False p by (simp add: prepare_row_def Let_def)
qed (simp add: prepare_row_def)

lemma phase_call_grows:
  assumes "phase_call sc ph ee e = (ee', e', called)" "ee_err ee = None"
  shows "grows (ex_entities e) (ex_entities e') \<and> grows_row ee ee'"
  using assms calls_grow
  by (cases ph) (auto simp: phase_defs Let_def grows_row_def split: if_splits prod.splits sum.splits)

lemma call_row_grows:
  "grows (ex_entities e) (ex_entities (fst (call_row sc ph clk i (e, tr))))"
proof -
  obtain until reason s where d: "getDisabledUntil (clk i) (ex_sync e) = (until, reason, s)" by (rule prod_cases3)
  let ?e = "e\<lparr>ex_sync := s\<rparr>" and ?p = "prepare_row sc i (e\<lparr>ex_sync := s\<rparr>)"
  obtain ee' e' called where c: "phase_call sc ph (ex_entities ?p ! i) ?p = (ee', e', called)" by (rule prod_cases3)
  have se: "grows (ex_entities e) (ex_entities (set_err i err ?e))" if "ee_err (ex_entities e ! i) = None" for err
    using set_err_grows [of ?e i err] that by simp
  have pr: "grows (ex_entities e) (ex_entities ?p)" if "ee_err (ex_entities e ! i) = None"
    using prepare_row_grows [of ?e i sc] that by simp
  have ph: "grows (ex_entities e) ((ex_entities e')[i := ee'])"
    if "ee_err (ex_entities e ! i) = None" "ee_err (ex_entities ?p ! i) = None"
  proof -
    have g: "grows (ex_entities ?p) (ex_entities e')" "grows_row (ex_entities ?p ! i) ee'"
      using phase_call_grows [OF c that(2)] by auto
    show ?thesis using grows_trans [OF pr [OF that(1)] grows_update [OF g(1)]] g(2) by blast
  qed
  show ?thesis using d c se pr ph by (simp add: call_row_def Let_def)
qed

lemma rows_grow: "grows (ex_entities (fst st)) (ex_entities (fst (fold (call_row sc ph clk) is st)))"
proof (induction "is" arbitrary: st)
  case (Cons i "is")
  show ?case using grows_trans [OF call_row_grows [of "fst st" sc ph clk i "snd st"] Cons.IH] by simp
qed simp

lemma synchronizersCall_grows:
  "grows (ex_entities (fst st)) (ex_entities (fst (synchronizersCall sc ph ctx clk st)))"
  unfolding synchronizersCall_def by (rule rows_grow)

lemma checkLinkedSynchronization_rows:
  assumes "distinct (names (ex_entities e))"
  shows "list_all2 (\<lambda>r r'. grows_row r r' \<and> ee_err r' = ee_err r) (ex_entities e) (ex_entities (checkLinkedSynchronization e))"
proof -
  let ?rows = "ex_entities e" and ?idx = "nameToIdx (ex_entities e)"
  let ?x = "expandLinkedTarget ?idx ?rows"
  have nm: "names ?x = names ?rows" by (rule expandLinkedTarget_reach [OF assms])
  have len: "length ?x = length ?rows" using arg_cong [OF nm, of length] by simp
  have core: "row_core (?x ! i) = row_core (?rows ! i)" if "i < length ?rows" for i
    using expandLinkedTarget_core [of ?idx ?rows] that len by (metis nth_map)
  have name: "ee_name (?x ! j) = ee_name (?rows ! j)" if "j < length ?rows" for j using nm len that by (metis nth_map)
  have ok: "idx_ok ?idx (names ?x)" using nameToIdx_ok [OF assms] nm by simp
  have closure: "set (ee_linkedSyncTargets (?x ! j)) = {t. (ee_name (?x ! j), t) \<in> (link_rel ?rows)\<^sup>* \<and> t \<noteq> ee_name (?x ! j)}"
    if "j < length ?x" for j
    using expandLinkedTarget_reach(2) [OF assms, of j] that len name by simp
  let ?y = "fold (raise_targets ?idx) [0..<length ?x] ?x"
  have "length ?y = length ?rows" using raise_prefix [OF ok closure order_refl] len by simp
  moreover have "grows_row (?rows ! i) (?y ! i) \<and> ee_err (?y ! i) = ee_err (?rows ! i)" if "i < length ?rows" for i
  proof -
    have "same_row (?x ! i) (?y ! i)" "ee_syncType (?x ! i) \<le> ee_syncType (?y ! i)"
      using raise_prefix [OF ok closure order_refl] that len by auto
    then show ?thesis using core [OF that] by (auto simp: grows_row_def same_row_def row_core_def)
  qed
  ultimately show ?thesis by (simp add: checkLinkedSynchronization_def Let_def list_all2_conv_all_nth)
qed

lemma checkLinkedSynchronization_grows:
  "distinct (names (ex_entities e)) \<Longrightarrow> grows (ex_entities e) (ex_entities (checkLinkedSynchronization e))"
  unfolding grows_def by (rule list_all2_mono [OF checkLinkedSynchronization_rows]) simp_all

lemma dropFulfilledLaterRequests_entities [simp]: "ex_entities (dropFulfilledLaterRequests e) = ex_entities e"
  by (simp add: dropFulfilledLaterRequests_def)

lemma check_duplicated_grows: "grows (ex_entities e) (ex_entities (check_duplicated I e))"
proof -
  obtain calls err where d: "in_duplicate I = (calls, err)" by (cases "in_duplicate I")
  have c: "grows (ex_entities e) (ex_entities (fold exec_apply calls e))" by (rule calls_grow)
  have m: "grows rs (map (\<lambda>ee. if ee_syncType ee \<noteq> SyncTypeNone \<and> ee_err ee = None then ee\<lparr>ee_err := Some x\<rparr> else ee) rs)" for rs x
    by (rule grows_map) (simp add: grows_row_def)
  show ?thesis using c grows_trans [OF c m] d by (auto simp: check_duplicated_def Let_def split: option.split)
qed

text \<open>What every request keeps, the chain of conditional requests keeps.\<close>

lemma fold_keeps: "(\<And>x e. P e \<Longrightarrow> P (f x e)) \<Longrightarrow> P e \<Longrightarrow> P (fold f xs e)"
  by (induction xs arbitrary: e) simp_all

lemma request_all_keeps:
  assumes "\<And>e now n force. P e \<Longrightarrow> P (RequestSynchronization now n force e)"
  shows "P e \<Longrightarrow> P (RequestSynchronizationForAll now force e)"
  unfolding RequestSynchronizationForAll_def by (rule fold_keeps) (rule assms)

lemma compat_keeps:
  assumes req: "\<And>e now n force. P e \<Longrightarrow> P (RequestSynchronization now n force e)" and e: "P e"
  shows "P (snd (compatibilitySyncToPerform now c st e))"
proof -
  have all: "P e \<Longrightarrow> P (if b then RequestSynchronizationForAll now force e else e)" for b now force e
    using request_all_keeps [of P, OF req] by simp
  have one: "P e \<Longrightarrow> P (if b then RequestSynchronization now n force e else e)" for b now n force e
    using req by simp
  have pair: "P e \<Longrightarrow> P (snd (if b then (st', RequestSynchronization now n force e) else (st, e)))"
    "P e \<Longrightarrow> P (snd (if b then (st', RequestSynchronization now n force (RequestSynchronization now n' force' e)) else (st, e)))"
    for b now n force n' force' st st' e
    using req by simp_all
  have let1: "P e \<Longrightarrow> (\<And>e. P e \<Longrightarrow> P (snd (f e))) \<Longrightarrow> P (snd (Let e f))" for e and f :: "Execution \<Rightarrow> synchronizerState \<times> Execution"
    by (simp add: Let_def)
  have let2: "P (snd p) \<Longrightarrow> (\<And>st e. P e \<Longrightarrow> P (snd (f st e))) \<Longrightarrow> P (snd (let (st, e) = p in f st e))"
    for p and f :: "synchronizerState \<Rightarrow> Execution \<Rightarrow> synchronizerState \<times> Execution"
    by (cases p) simp
  show ?thesis unfolding compatibilitySyncToPerform_def by (intro let1 let2 pair one all e)
qed

lemma compatibilitySyncToPerform_grows:
  "grows (ex_entities e) (ex_entities (snd (compatibilitySyncToPerform now c st e)))"
  by (rule compat_keeps [of "\<lambda>e'. grows (ex_entities e) (ex_entities e')"]) (auto intro: grows_trans RequestSynchronization_grows)

lemma run_begin_grows: "grows (ex_entities e) (ex_entities (fst (run_begin I (e, tr))))"
proof (cases "ex_isLimitedExecution e")
  case False
  let ?e1 = "if forceCacheRefreshForAll (in_now I) (in_now I) (ci_nextConfigAt (in_compat I)) e
    then RequestSynchronizationForAll (in_now I) True e else e"
  let ?p = "compatibilitySyncToPerform (in_now I) (in_compat I) (in_state I) ?e1"
  let ?q = "synchronizersCall (in_scripts I) PhaseNeed (in_ctx I) (in_clock I PhaseNeed) (snd ?p, tr)"
  have 1: "grows (ex_entities e) (ex_entities ?e1)" using RequestSynchronizationForAll_grows by simp
  have 2: "grows (ex_entities e) (ex_entities (snd ?p))" by (rule grows_trans [OF 1 compatibilitySyncToPerform_grows])
  have 3: "grows (ex_entities e) (ex_entities (fst ?q))" using grows_trans [OF 2] synchronizersCall_grows [of "(snd ?p, tr)"] by simp
  have "fst (run_begin I (e, tr)) =
      (if hadWork (fst ?q) \<and> 30 * 60 * second < time_sub (in_now I) (in_infoFetchedAt I)
       then RequestSynchronization (in_now I) ''info'' False (fst ?q) else fst ?q)"
    using False by (simp add: run_begin_def Let_def case_prod_beta)
  then show ?thesis using 3 grows_trans [OF 3 RequestSynchronization_grows] by simp
qed (simp add: run_begin_def)

text \<open>The state when the synchronization starts, and after its two phases.\<close>

definition started :: "run_input \<Rightarrow> Execution \<Rightarrow> Execution" where
  "started I e = check_duplicated I
     ((dropFulfilledLaterRequests (checkLinkedSynchronization (fst (run_begin I (e, [])))))\<lparr>ex_syncListStarted := True\<rparr>)"

definition refreshed :: "run_input \<Rightarrow> Execution \<Rightarrow> Execution \<times> sync_trace" where
  "refreshed I e = synchronizersCall (in_scripts I) PhaseRefresh (in_ctx I - length (ex_entities e)) (in_clock I PhaseRefresh)
     (started I e, snd (run_begin I (e, [])))"

lemma run_calls_alt:
  "run_calls I e = synchronizersCall (in_scripts I) PhaseSync (in_ctx I - 2 * length (ex_entities e)) (in_clock I PhaseSync) (refreshed I e)"
  by (simp add: run_calls_def started_def refreshed_def Let_def case_prod_beta)

lemma started_grows:
  assumes "distinct (names (ex_entities e))"
  shows "grows (ex_entities e) (ex_entities (started I e))"
proof -
  let ?e = "fst (run_begin I (e, []))"
  have 1: "grows (ex_entities e) (ex_entities ?e)" by (rule run_begin_grows)
  have "distinct (names (ex_entities ?e))" using grows_names [OF 1] assms by simp
  from grows_trans [OF 1 checkLinkedSynchronization_grows [OF this]]
  have 2: "grows (ex_entities e) (ex_entities (checkLinkedSynchronization ?e))" .
  let ?f = "(dropFulfilledLaterRequests (checkLinkedSynchronization ?e))\<lparr>ex_syncListStarted := True\<rparr>"
  have "grows (ex_entities e) (ex_entities ?f)" using 2 by simp
  from grows_trans [OF this check_duplicated_grows] show ?thesis unfolding started_def .
qed

lemma refreshed_grows:
  assumes "distinct (names (ex_entities e))"
  shows "grows (ex_entities e) (ex_entities (fst (refreshed I e)))"
proof -
  have "grows (ex_entities (started I e)) (ex_entities (fst (refreshed I e)))"
    unfolding refreshed_def using synchronizersCall_grows [of "(started I e, snd (run_begin I (e, [])))"] by (simp only: fst_conv)
  from grows_trans [OF started_grows [OF assms] this] show ?thesis .
qed

lemma run_calls_grows:
  assumes "distinct (names (ex_entities e))"
  shows "grows (ex_entities e) (ex_entities (fst (run_calls I e)))"
  unfolding run_calls_alt by (rule grows_trans [OF refreshed_grows [OF assms] synchronizersCall_grows])

section \<open>What a whole execution keeps\<close>

text \<open>
  A property of the execution that does not depend on its rows and that every call on it keeps, is kept by the
  phases and by all other parts of an execution that only make such calls.
\<close>

locale exec_invariant =
  fixes P :: "Execution \<Rightarrow> bool"
  assumes call: "P e \<Longrightarrow> P (exec_apply c e)"
    and rows: "P e \<Longrightarrow> P (e\<lparr>ex_entities := rs\<rparr>)"
    and disabled: "P e \<Longrightarrow> P (e\<lparr>ex_sync := snd (snd (getDisabledUntil now (ex_sync e)))\<rparr>)"
begin

lemma calls: "P e \<Longrightarrow> P (fold exec_apply cs e)"
  by (rule fold_keeps) (rule call)

lemma request: "P e \<Longrightarrow> P (RequestSynchronization now n force e)"
  using call [of e "CallRequest now n force"] by simp

lemma phase: "P e \<Longrightarrow> phase_call sc ph ee e = (ee', e', called) \<Longrightarrow> P e'"
  by (cases ph) (auto simp: phase_defs Let_def calls split: if_splits prod.splits sum.splits)

lemma row: "P e \<Longrightarrow> P (fst (call_row sc ph clk i (e, tr)))"
proof -
  assume e: "P e"
  obtain until reason s where d: "getDisabledUntil (clk i) (ex_sync e) = (until, reason, s)" by (rule prod_cases3)
  let ?e = "e\<lparr>ex_sync := s\<rparr>" and ?p = "prepare_row sc i (e\<lparr>ex_sync := s\<rparr>)"
  obtain ee' e' called where c: "phase_call sc ph (ex_entities ?p ! i) ?p = (ee', e', called)" by (rule prod_cases3)
  have 1: "P ?e" using disabled [OF e, of "clk i"] d by simp
  then have 2: "P ?p" by (simp add: prepare_row_def Let_def case_prod_beta calls rows)
  then have "P e'" using phase [OF _ c] by simp
  then show ?thesis using e d c 1 2 by (simp add: call_row_def Let_def set_err_def rows)
qed

lemma phases: "P (fst st) \<Longrightarrow> P (fst (synchronizersCall sc ph ctx clk st))"
  unfolding synchronizersCall_def by (rule fold_keeps [of "\<lambda>st. P (fst st)"]) (use row in \<open>fastforce\<close>)

lemma start: "P e \<Longrightarrow> P (fst (run_begin I (e, tr)))"
  using request_all_keeps [of P, OF request] compat_keeps [of P, OF request] phases request
  by (simp add: run_begin_def Let_def case_prod_beta)

lemma duplicated: "P e \<Longrightarrow> P (check_duplicated I e)"
  using calls rows by (auto simp: check_duplicated_def Let_def case_prod_beta split: option.split)

end

text \<open>What no call changes.\<close>

definition frame :: "Execution \<Rightarrow> bool \<times> bool \<times> bool \<times> (entity_name, SyncRequest) gomap" where
  "frame e = (ex_syncListStarted e, ex_onlyEssential e, ex_isLimitedExecution e, ex_deferredSync e)"

lemma RequestSynchronization_frame [simp]: "frame (RequestSynchronization now n force e) = frame e"
  by (simp add: RequestSynchronization_def Let_def frame_def)

lemma exec_apply_frame: "frame (exec_apply c e) = frame e"
proof (cases c)
  case (CallForAll now force)
  then show ?thesis using request_all_keeps [of "\<lambda>e'. frame e' = frame e"] by simp
qed (simp_all add: RequestLinkedSynchronization_def FailOtherEntity_def RequestLaterFullSynchronization_def
      RequestUpdateThresholds_def RequestNotifyLabelsUpdate_def, simp_all add: frame_def)

interpretation frame_inv: exec_invariant "\<lambda>e. frame e = f" for f
  by unfold_locales (simp_all add: exec_apply_frame, simp_all add: frame_def)

lemma RequestSynchronization_started [simp]: "ex_syncListStarted (RequestSynchronization now n force e) = ex_syncListStarted e"
  by (simp add: RequestSynchronization_def Let_def)

lemma run_calls_frame:
  "frame (fst (run_calls I e)) = (True, ex_onlyEssential e, ex_isLimitedExecution e, ex_deferredSync e)"
proof -
  have "frame (fst (run_begin I (e, []))) = frame e" by (rule frame_inv.start) simp
  then have "frame ((dropFulfilledLaterRequests (checkLinkedSynchronization (fst (run_begin I (e, [])))))\<lparr>ex_syncListStarted := True\<rparr>) =
      (True, ex_onlyEssential e, ex_isLimitedExecution e, ex_deferredSync e)"
    by (simp add: frame_def dropFulfilledLaterRequests_def checkLinkedSynchronization_def Let_def)
  then show ?thesis unfolding run_calls_alt refreshed_def started_def
    by (intro frame_inv.phases) (simp add: frame_inv.duplicated frame_inv.phases)
qed

lemma run_calls_started: "ex_syncListStarted (fst (run_calls I e))"
  using run_calls_frame [of I e] by (simp add: frame_def)

section \<open>Requests survive maintenance\<close>

text \<open>A request for an entity is pending that is at least as strong as \<open>t\<close> and due at \<open>d\<close> at the latest.\<close>

definition pending :: "entity_name \<Rightarrow> SyncType \<Rightarrow> gotime \<Rightarrow> Synchronizer \<Rightarrow> bool" where
  "pending n t d s \<longleftrightarrow> (\<exists>r. map_of (sy_forceSync s) n = Some r \<and> t \<le> rq_Type r \<and> rq_Deadline r \<le> d)"

lemma pending_later: "pending n t d s \<Longrightarrow> pending n t d (requestLaterSynchronizationLocked now m force delay s)"
  by (auto simp: pending_def request_later_map_of le_max_iff_disj min_le_iff_disj)

lemma pending_locked: "pending n t d s \<Longrightarrow> pending n t d (requestSynchronizationLocked now m force s)"
  by (simp add: requestSynchronizationLocked_def pending_later)

lemma pending_fold: "pending n t d s \<Longrightarrow> pending n t d (fold (\<lambda>m. requestSynchronizationLocked now m force) ms s)"
  by (rule fold_keeps) (rule pending_locked)

lemma pending_new:
  "t = SyncTypeForceCacheRefresh \<longrightarrow> force \<Longrightarrow> pending n t now (requestSynchronizationLocked now n force s)"
  by (cases t) (auto simp: pending_def requestSynchronizationLocked_def request_later_map_of max_def split: option.split if_splits)

lemma RequestSynchronization_pending:
  "pending n t d (ex_sync e) \<Longrightarrow> pending n t d (ex_sync (RequestSynchronization now m force e))"
  by (simp add: RequestSynchronization_def Let_def pending_fold pending_locked)

lemma exec_apply_pending: "pending n t d (ex_sync e) \<Longrightarrow> pending n t d (ex_sync (exec_apply c e))"
proof (cases c)
  case (CallForAll now force)
  then show "pending n t d (ex_sync e) \<Longrightarrow> pending n t d (ex_sync (exec_apply c e))"
    using request_all_keeps [of "\<lambda>e. pending n t d (ex_sync e)"] RequestSynchronization_pending by simp
qed (simp_all add: RequestSynchronization_pending pending_later RequestLinkedSynchronization_def FailOtherEntity_def
      RequestLaterFullSynchronization_def RequestUpdateThresholds_def RequestNotifyLabelsUpdate_def Let_def, simp_all add: pending_def sync_Disable_def)

interpretation pending_inv: exec_invariant "\<lambda>e. pending n t d (ex_sync e)" for n t d
  by unfold_locales (simp_all add: exec_apply_pending, simp_all add: pending_def getDisabledUntil_def Let_def)

lemma finish_row_frame: "frame (finish_row now ee e) = frame e"
  by (simp add: finish_row_def Let_def)

lemma finish_row_pending: "pending n t d (ex_sync e) \<Longrightarrow> pending n t d (ex_sync (finish_row now ee e))"
  by (simp add: finish_row_def Let_def RequestSynchronization_pending)

lemma finish_row_again:
  assumes "ex_syncListStarted e" "ee_err ee = Some ErrSkippedExecution \<or> ex_onlyEssential e" "t \<le> ee_syncType ee"
    "ee_syncType ee \<noteq> SyncTypeNone"
  shows "pending (ee_name ee) t now (ex_sync (finish_row now ee e))"
proof -
  let ?force = "ee_syncType ee = SyncTypeForceCacheRefresh"
  have new: "pending (ee_name ee) t now (ex_sync (RequestSynchronization now (ee_name ee) ?force e))"
    if "ex_syncListStarted e" for e
    using that assms(3) pending_new [of t ?force "ee_name ee" now "ex_sync e"]
    by (simp add: RequestSynchronization_def Let_def) (metis pending_fold SyncType_less_eq(5))
  show ?thesis using assms new RequestSynchronization_pending by (auto simp: finish_row_def Let_def)
qed

lemma finish_rows_frame: "frame (fold (finish_row now) rows e) = frame e"
  by (rule fold_keeps [of "\<lambda>e'. frame e' = frame e"]) (simp_all add: finish_row_frame)

lemma finish_rows_again:
  assumes "ex_syncListStarted e" "ee \<in> set rows" "ee_err ee = Some ErrSkippedExecution \<or> ex_onlyEssential e"
    "t \<le> ee_syncType ee" "ee_syncType ee \<noteq> SyncTypeNone"
  shows "pending (ee_name ee) t now (ex_sync (fold (finish_row now) rows e))"
proof -
  obtain xs ys where rows: "rows = xs @ ee # ys" using assms(2) by (metis split_list)
  let ?e = "fold (finish_row now) xs e"
  have "ex_syncListStarted ?e" "ex_onlyEssential ?e = ex_onlyEssential e"
    using assms(1) finish_rows_frame [of now xs e] by (simp_all add: frame_def)
  then have "pending (ee_name ee) t now (ex_sync (finish_row now ee ?e))" using assms(3-5) finish_row_again by simp
  then show ?thesis unfolding rows
    using fold_keeps [of "\<lambda>e. pending (ee_name ee) t now (ex_sync e)" "finish_row now"] finish_row_pending by simp
qed

lemma newExecution_row:
  assumes "gm_wf (sy_forceSync s)" "en \<in> set synchronizers" "map_of (sy_forceSync s) (en_Name en) = Some r" "rq_Deadline r \<le> startedAt"
  shows "\<exists>ee \<in> set (ex_entities (newExecution synchronizers startedAt ess new s)). ee_entity ee = en \<and> ee_syncType ee = rq_Type r \<and>
    ee_err ee = (if sy_maintenanceMode s \<and> \<not> en_EnabledInMaintenance en \<or> sy_suspendedMode s \<and> \<not> en_EnabledInSuspendedMode en
                 then Some ErrSkippedExecution else None)"
proof -
  let ?due = "filter (\<lambda>(_, r). \<not> startedAt < rq_Deadline r) (sy_forceSync s)"
  have "map_of ?due (en_Name en) = Some r"
    using map_of_filter_wf [OF assms(1)] assms(3,4) by simp
  then have "map_of (map (\<lambda>(e, r). (e, rq_Type r)) ?due) (en_Name en) = Some (rq_Type r)"
    by (simp add: map_of_map_val)
  then show ?thesis using assms(2)
    by (auto simp: newExecution_def getEntityExecution_def Let_def gm_get_or_def intro!: bexI [OF _ imageI [of en]])
qed

lemma newExecution_names: "names (ex_entities (newExecution synchronizers startedAt ess new s)) = map en_Name synchronizers"
  by (simp add: newExecution_def getEntityExecution_def Let_def)

lemma run_alt: "fst (run I e) = fold (finish_row (in_end I)) (ex_entities (fst (run_calls I e))) (fst (run_calls I e))"
  by (simp add: run_def Let_def case_prod_beta)

text \<open>
  C14 (maintenance does not lose requests). An entity that is not synchronized in maintenance keeps its due
  request: whatever the other entities do and return in the execution, the request, or a
  stronger one, is pending again at its end.
\<close>

theorem maintenance_keeps_requests:
  assumes "gm_wf (sy_forceSync s)" "distinct (map en_Name synchronizers)" "en \<in> set synchronizers"
    "map_of (sy_forceSync s) (en_Name en) = Some r" "rq_Type r \<noteq> SyncTypeNone" "rq_Deadline r \<le> startedAt"
    "sy_maintenanceMode s" "\<not> en_EnabledInMaintenance en"
  shows "\<exists>r'. map_of (sy_forceSync (ex_sync (fst (run I (newExecution synchronizers startedAt ess new s))))) (en_Name en) = Some r' \<and>
           rq_Type r \<le> rq_Type r'"
proof -
  let ?e = "newExecution synchronizers startedAt ess new s"
  obtain ee where ee: "ee \<in> set (ex_entities ?e)" "ee_entity ee = en" "ee_syncType ee = rq_Type r"
    "ee_err ee = Some ErrSkippedExecution"
    using newExecution_row [OF assms(1,3,4,6), of ess new] assms(7,8) by auto
  have g: "grows (ex_entities ?e) (ex_entities (fst (run_calls I ?e)))"
    using run_calls_grows newExecution_names assms(2) by simp
  obtain i where i: "i < length (ex_entities ?e)" "ex_entities ?e ! i = ee" using ee(1) by (auto simp: in_set_conv_nth)
  let ?ee = "ex_entities (fst (run_calls I ?e)) ! i"
  have "?ee \<in> set (ex_entities (fst (run_calls I ?e)))" using i grows_length [OF g] by simp
  moreover have "ee_entity ?ee = en" "ee_err ?ee = Some ErrSkippedExecution" "rq_Type r \<le> ee_syncType ?ee"
    using grows_nth [OF g i(1)] i(2) ee by (auto simp: grows_row_def)
  moreover have "ee_syncType ?ee \<noteq> SyncTypeNone" using calculation(4) assms(5) by auto
  ultimately have "pending (en_Name en) (rq_Type r) (in_end I) (ex_sync (fst (run I ?e)))"
    using finish_rows_again [of "fst (run_calls I ?e)" ?ee] run_calls_started unfolding run_alt by auto
  then show ?thesis by (auto simp: pending_def)
qed

section \<open>A failed refresh stops the synchronization of its entity\<close>

text \<open>The error a phase gets from an entity.\<close>

fun phase_err :: "(entity_name \<Rightarrow> entity_script) \<Rightarrow> sync_phase \<Rightarrow> entity_name \<Rightarrow> sync_error option" where
  "phase_err sc PhaseNeed n = (case snd (sc_need (sc n)) of Inl err \<Rightarrow> Some err | Inr _ \<Rightarrow> None)"
| "phase_err sc PhaseRefresh n = snd (sc_refresh (sc n))"
| "phase_err sc PhaseSync n = snd (sc_sync (sc n))"

lemma phase_call_err:
  "phase_call sc ph ee e = (ee', e', True) \<Longrightarrow> ee_err ee = None \<Longrightarrow> ee_err ee' = phase_err sc ph (ee_name ee)"
  by (cases ph) (auto simp: phase_defs Let_def split: if_splits prod.splits sum.splits)

text \<open>What a row of a phase adds to the trace.\<close>

lemma call_row_trace:
  assumes "i < length (ex_entities e)"
  shows "snd (call_row sc ph clk i (e, tr)) = tr \<or>
    snd (call_row sc ph clk i (e, tr)) = tr @ [(ph, ee_name (ex_entities e ! i))] \<and> ee_err (ex_entities e ! i) = None \<and>
    ee_err (ex_entities (fst (call_row sc ph clk i (e, tr))) ! i) = phase_err sc ph (ee_name (ex_entities e ! i))"
proof (cases "snd (call_row sc ph clk i (e, tr)) = tr")
  case False
  obtain until reason s where d: "getDisabledUntil (clk i) (ex_sync e) = (until, reason, s)" by (rule prod_cases3)
  let ?p = "prepare_row sc i (e\<lparr>ex_sync := s\<rparr>)"
  obtain ee' e' called where c: "phase_call sc ph (ex_entities ?p ! i) ?p = (ee', e', called)" by (rule prod_cases3)
  have *: "ee_err (ex_entities e ! i) = None" "ee_err (ex_entities ?p ! i) = None" called
    "call_row sc ph clk i (e, tr) = (e'\<lparr>ex_entities := (ex_entities e')[i := ee']\<rparr>, tr @ [(ph, ee_name (ex_entities ?p ! i))])"
    using False d c by (auto simp: call_row_def Let_def split: if_splits)
  have g: "grows (ex_entities e) (ex_entities ?p)" using prepare_row_grows [of "e\<lparr>ex_sync := s\<rparr>" i sc] *(1) by simp
  then have name: "ee_name (ex_entities ?p ! i) = ee_name (ex_entities e ! i)"
    using grows_nth [OF g assms] by (simp add: grows_row_def)
  have "grows (ex_entities ?p) (ex_entities e')" using phase_call_grows [OF c *(2)] by simp
  then have "i < length (ex_entities e')" using grows_length g assms by metis
  then show ?thesis using * phase_call_err [of sc ph "ex_entities ?p ! i" ?p ee' e'] c name by simp
qed simp

definition entry_ok :: "(entity_name \<Rightarrow> entity_script) \<Rightarrow> sync_phase \<Rightarrow> EntityExecution list \<Rightarrow> EntityExecution list \<Rightarrow> entity_name \<Rightarrow> bool" where
  "entry_ok sc ph rs rs' n \<longleftrightarrow>
     (\<exists>i < length rs. ee_name (rs ! i) = n \<and> ee_err (rs ! i) = None \<and> (phase_err sc ph n \<noteq> None \<longrightarrow> ee_err (rs' ! i) = phase_err sc ph n))"

lemma entry_ok_before:
  assumes "grows rs rs1" "entry_ok sc ph rs1 rs' n"
  shows "entry_ok sc ph rs rs' n"
proof -
  obtain i where i: "i < length rs1" "ee_name (rs1 ! i) = n" "ee_err (rs1 ! i) = None" "phase_err sc ph n \<noteq> None \<longrightarrow> ee_err (rs' ! i) = phase_err sc ph n"
    using assms(2) unfolding entry_ok_def by blast
  have "i < length rs" using i(1) grows_length [OF assms(1)] by simp
  then show ?thesis unfolding entry_ok_def using i grows_nth [OF assms(1), of i] by (auto simp: grows_row_def)
qed

lemma calls_trace:
  assumes "\<forall>i \<in> set is. i < length (ex_entities e)"
  shows "\<exists>added. snd (fold (call_row sc ph clk) is (e, tr)) = tr @ map (Pair ph) added \<and>
    (\<forall>n \<in> set added. entry_ok sc ph (ex_entities e) (ex_entities (fst (fold (call_row sc ph clk) is (e, tr)))) n)"
  using assms
proof (induction "is" arbitrary: e tr)
  case (Cons i "is")
  obtain e1 tr1 where c: "call_row sc ph clk i (e, tr) = (e1, tr1)" by fastforce
  have g: "grows (ex_entities e) (ex_entities e1)" using call_row_grows [of e sc ph clk i tr] c by simp
  have i: "i < length (ex_entities e)" "\<forall>i \<in> set is. i < length (ex_entities e1)"
    using Cons.prems grows_length [OF g] by simp_all
  let ?f = "fold (call_row sc ph clk) is (e1, tr1)"
  obtain added where a: "snd ?f = tr1 @ map (Pair ph) added" "\<forall>n \<in> set added. entry_ok sc ph (ex_entities e1) (ex_entities (fst ?f)) n"
    using Cons.IH [OF i(2)] by blast
  have rest: "\<forall>n \<in> set added. entry_ok sc ph (ex_entities e) (ex_entities (fst ?f)) n"
    using a(2) entry_ok_before [OF g] by blast
  have g2: "grows (ex_entities e1) (ex_entities (fst ?f))" using rows_grow [of "(e1, tr1)"] by simp
  let ?n = "ee_name (ex_entities e ! i)"
  consider "tr1 = tr" | "tr1 = tr @ [(ph, ?n)]" "ee_err (ex_entities e ! i) = None" "ee_err (ex_entities e1 ! i) = phase_err sc ph ?n"
    using call_row_trace [OF i(1), of sc ph clk tr] c by auto
  then show ?case
  proof cases
    case 1
    then show ?thesis using a(1) rest c by (intro exI [of _ added]) simp
  next
    case 2
    have "phase_err sc ph ?n \<noteq> None \<longrightarrow> ee_err (ex_entities (fst ?f) ! i) = phase_err sc ph ?n"
      using grows_nth [OF g2, of i] i grows_length [OF g] 2(3) unfolding grows_row_def by metis
    then have "entry_ok sc ph (ex_entities e) (ex_entities (fst ?f)) ?n" unfolding entry_ok_def using i(1) 2(2) by blast
    then show ?thesis using a(1) rest c 2(1) by (intro exI [of _ "?n # added"]) simp
  qed
qed simp

lemma synchronizersCall_trace:
  "\<exists>added. snd (synchronizersCall sc ph ctx clk (e, tr)) = tr @ map (Pair ph) added \<and>
    (\<forall>n \<in> set added. entry_ok sc ph (ex_entities e) (ex_entities (fst (synchronizersCall sc ph ctx clk (e, tr)))) n)"
  using calls_trace [of "[0..<min ctx (length (ex_entities e))]" e sc ph clk tr] by (simp add: synchronizersCall_def)

lemma run_begin_trace: "\<exists>added. snd (run_begin I (e, [])) = map (Pair PhaseNeed) added"
proof (cases "ex_isLimitedExecution e")
  case False
  define p where "p = compatibilitySyncToPerform (in_now I) (in_compat I) (in_state I)
    (if forceCacheRefreshForAll (in_now I) (in_now I) (ci_nextConfigAt (in_compat I)) e
     then RequestSynchronizationForAll (in_now I) True e else e)"
  have "snd (run_begin I (e, [])) = snd (synchronizersCall (in_scripts I) PhaseNeed (in_ctx I) (in_clock I PhaseNeed) (snd p, []))"
    using False by (simp add: run_begin_def Let_def case_prod_beta p_def)
  then show ?thesis using synchronizersCall_trace [of "in_scripts I" PhaseNeed "in_ctx I" "in_clock I PhaseNeed" "snd p" "[]"] by auto
qed (simp add: run_begin_def)

text \<open>The entities the two phases of a run called.\<close>

lemma run_called:
  shows "(PhaseRefresh, n) \<in> set (fst (snd (run I e))) \<Longrightarrow>
      entry_ok (in_scripts I) PhaseRefresh (ex_entities (started I e)) (ex_entities (fst (refreshed I e))) n"
    and "(PhaseSync, n) \<in> set (fst (snd (run I e))) \<Longrightarrow>
      entry_ok (in_scripts I) PhaseSync (ex_entities (fst (refreshed I e))) (ex_entities (fst (run_calls I e))) n"
proof -
  obtain a0 where a0: "snd (run_begin I (e, [])) = map (Pair PhaseNeed) a0" using run_begin_trace by blast
  let ?s = "ex_entities (started I e)" and ?r = "ex_entities (fst (refreshed I e))"
  obtain a1 where a1: "snd (refreshed I e) = snd (run_begin I (e, [])) @ map (Pair PhaseRefresh) a1"
    "\<forall>n \<in> set a1. entry_ok (in_scripts I) PhaseRefresh ?s ?r n"
    using synchronizersCall_trace [of "in_scripts I" PhaseRefresh "in_ctx I - length (ex_entities e)" "in_clock I PhaseRefresh"
        "started I e" "snd (run_begin I (e, []))"]
    unfolding refreshed_def by blast
  have "\<exists>a2. snd (run_calls I e) = snd (refreshed I e) @ map (Pair PhaseSync) a2 \<and>
      (\<forall>n \<in> set a2. entry_ok (in_scripts I) PhaseSync ?r (ex_entities (fst (run_calls I e))) n)"
    using synchronizersCall_trace [of "in_scripts I" PhaseSync "in_ctx I - 2 * length (ex_entities e)" "in_clock I PhaseSync"
        "fst (refreshed I e)" "snd (refreshed I e)"]
    by (simp only: run_calls_alt prod.collapse)
  then obtain a2 where a2: "snd (run_calls I e) = snd (refreshed I e) @ map (Pair PhaseSync) a2"
    "\<forall>n \<in> set a2. entry_ok (in_scripts I) PhaseSync ?r (ex_entities (fst (run_calls I e))) n" by blast
  have "fst (snd (run I e)) = snd (run_calls I e)" by (simp add: run_def Let_def case_prod_beta)
  then have "fst (snd (run I e)) = map (Pair PhaseNeed) a0 @ map (Pair PhaseRefresh) a1 @ map (Pair PhaseSync) a2"
    using a0 a1(1) a2(1) by simp
  then show "(PhaseRefresh, n) \<in> set (fst (snd (run I e))) \<Longrightarrow> entry_ok (in_scripts I) PhaseRefresh ?s ?r n"
    "(PhaseSync, n) \<in> set (fst (snd (run I e))) \<Longrightarrow> entry_ok (in_scripts I) PhaseSync ?r (ex_entities (fst (run_calls I e))) n"
    using a1(2) a2(2) by auto
qed

text \<open>A called entity is a row of the execution, the only one with its name.\<close>

lemma entry_ok_row:
  assumes "entry_ok sc ph rs rs' n" "grows rs0 rs" "grows rs0 rs'" "distinct (names rs0)" "i < length rs0" "ee_name (rs0 ! i) = n"
  shows "ee_err (rs ! i) = None" "phase_err sc ph n \<noteq> None \<Longrightarrow> ee_err (rs' ! i) = phase_err sc ph n"
proof -
  obtain j where j: "j < length rs" "ee_name (rs ! j) = n" "ee_err (rs ! j) = None"
    "phase_err sc ph n \<noteq> None \<longrightarrow> ee_err (rs' ! j) = phase_err sc ph n"
    using assms(1) unfolding entry_ok_def by blast
  have nm: "names rs = names rs0" by (rule grows_names [OF assms(2)])
  have "names rs ! j = names rs0 ! i" using j(1,2) assms(5,6) by simp
  moreover have "j < length rs0" using j(1) grows_length [OF assms(2)] by simp
  ultimately have "j = i" using nm assms(4,5) nth_eq_iff_index_eq [of "names rs0" j i] by simp
  then show "ee_err (rs ! i) = None" "phase_err sc ph n \<noteq> None \<Longrightarrow> ee_err (rs' ! i) = phase_err sc ph n" using j by simp_all
qed

text \<open>
  C29 (an entity whose refresh failed is not synchronized). In an execution, the calls of \<open>SyncRemoteAndLocal\<close> never
  include an entity for which \<open>RefreshCache\<close> was called and returned an error.
\<close>

theorem refresh_failure_stops:
  assumes "distinct (map (\<lambda>r. en_Name (ee_entity r)) (ex_entities e))" "snd (sc_refresh (in_scripts I n)) \<noteq> None"
  shows "\<not> ((PhaseRefresh, n) \<in> set (fst (snd (run I e))) \<and> (PhaseSync, n) \<in> set (fst (snd (run I e))))"
proof
  assume both: "(PhaseRefresh, n) \<in> set (fst (snd (run I e))) \<and> (PhaseSync, n) \<in> set (fst (snd (run I e)))"
  let ?s = "ex_entities (started I e)" and ?r = "ex_entities (fst (refreshed I e))"
  note ok = run_called(1) [OF conjunct1 [OF both]] run_called(2) [OF conjunct2 [OF both]]
  have g: "grows (ex_entities e) ?s" "grows (ex_entities e) ?r" "grows (ex_entities e) (ex_entities (fst (run_calls I e)))"
    using started_grows refreshed_grows run_calls_grows assms(1) by blast+
  obtain i where i: "i < length (ex_entities e)" "ee_name (ex_entities e ! i) = n"
    using ok(1) grows_nth [OF g(1)] grows_length [OF g(1)] unfolding entry_ok_def grows_row_def by metis
  have "ee_err (?r ! i) \<noteq> None" using entry_ok_row(2) [OF ok(1) g(1,2) assms(1) i] assms(2) by simp
  then show False using entry_ok_row(1) [OF ok(2) g(2,3) assms(1) i] by simp
qed

section \<open>Examples\<close>

text \<open>An entity whose refresh fails, in an agent where nothing else has to be done.\<close>

definition failing_script :: entity_script where
  "failing_script = \<lparr>sc_prepare = ([], None, True), sc_need = ([], Inr False),
     sc_refresh = ([], Some (ErrAPI ''500'')), sc_sync = ([], None)\<rparr>"

definition quiet_input :: run_input where
  "quiet_input = \<lparr>in_scripts = \<lambda>_. failing_script,
     in_compat = \<lparr>ci_factUpdatedAt = [], ci_SNMPCount = 0, ci_lastVSphereChange = 0, ci_lastDiscovery = 0, ci_metricCount = 0,
       ci_mqttIsConnected = True, ci_lastAnnotationChange = 0, ci_nextConfigAt = 0\<rparr>,
     in_state = \<lparr>ss_lastFactUpdatedAt = [], ss_lastSNMPcount = 0, ss_lastVSphereUpdate = 0, ss_metricRetryAt = 1000,
       ss_lastMetricCount = 0, ss_lastMaintenanceSync = 0, ss_configSyncDone = True\<rparr>,
     in_now = 100, in_clock = \<lambda>_ _. 100, in_ctx = 9, in_infoFetchedAt = 100, in_duplicate = ([], None), in_end = 100,
     in_ctxDone = False\<rparr>"

definition quiet_entity :: entity where
  "quiet_entity = \<lparr>en_Name = ''facts'', en_EnabledInMaintenance = False, en_EnabledInSuspendedMode = False\<rparr>"

definition quiet_sync :: Synchronizer where
  "quiet_sync = sync_new\<lparr>sy_forceSync := [(''facts'', \<lparr>rq_Type = SyncTypeNormal, rq_Deadline = 90\<rparr>)], sy_nextFullSync := 500\<rparr>"

theorem maintenance_keeps_requests_witness:
  "\<exists>r'. map_of (sy_forceSync (ex_sync (fst (run quiet_input
     (newExecution [quiet_entity] 100 False False (quiet_sync\<lparr>sy_maintenanceMode := True\<rparr>)))))) ''facts'' = Some r' \<and>
     SyncTypeNormal \<le> rq_Type r'"
  using maintenance_keeps_requests [of "quiet_sync\<lparr>sy_maintenanceMode := True\<rparr>" "[quiet_entity]" quiet_entity
      "\<lparr>rq_Type = SyncTypeNormal, rq_Deadline = 90\<rparr>" 100 quiet_input False False]
  by (simp add: quiet_sync_def quiet_entity_def)

theorem refresh_failure_stops_witness:
  "\<not> ((PhaseRefresh, ''facts'') \<in> set (fst (snd (run quiet_input (newExecution [quiet_entity] 100 False False quiet_sync)))) \<and>
      (PhaseSync, ''facts'') \<in> set (fst (snd (run quiet_input (newExecution [quiet_entity] 100 False False quiet_sync)))))"
  by (rule refresh_failure_stops) (simp_all add: newExecution_def getEntityExecution_def quiet_input_def failing_script_def Let_def)

end
