(* ===== verification/SyncRequests.thy ===== *)
theory SyncRequests
  imports SyncExecution
begin

text \<open>
  What becomes of the pending requests of a synchronizer in a whole execution of \<^verbatim>\<open>bleemeo/internal/synchronizer/execution.go\<close>:
  those that were not due when it started, and those that were due and whose entity failed.
\<close>

section \<open>Later requests\<close>

lemma drop_fold_map_of:
  fixes rows :: "EntityExecution list"
  defines "step \<equiv> \<lambda>D row s. if ee_syncType row = SyncTypeNone then s
        else case map_of D (ee_name row) of
               None \<Rightarrow> s
             | Some deferred \<Rightarrow>
                 if ee_syncType row < rq_Type deferred then s
                 else case map_of (sy_forceSync s) (ee_name row) of
                        None \<Rightarrow> s
                      | Some current \<Rightarrow>
                          if rq_Type current = rq_Type deferred \<and> rq_Deadline current = rq_Deadline deferred
                          then s\<lparr>sy_forceSync := gm_del (ee_name row) (sy_forceSync s)\<rparr> else s"
  shows "map_of (sy_forceSync (fold (step D) rows s)) n =
    (if \<exists>row \<in> set rows. ee_name row = n \<and> ee_syncType row \<noteq> SyncTypeNone \<and>
          (\<exists>d. map_of D n = Some d \<and> rq_Type d \<le> ee_syncType row \<and> map_of (sy_forceSync s) n = Some d)
     then None else map_of (sy_forceSync s) n)"
proof (induction rows arbitrary: s)
  case (Cons row rows)
  have eq: "rq_Type a = rq_Type b \<and> rq_Deadline a = rq_Deadline b \<longleftrightarrow> a = b" for a b :: SyncRequest by (cases a; cases b) simp
  have st: "map_of (sy_forceSync (step D row s)) n =
      (if ee_name row = n \<and> ee_syncType row \<noteq> SyncTypeNone \<and>
          (\<exists>d. map_of D n = Some d \<and> rq_Type d \<le> ee_syncType row \<and> map_of (sy_forceSync s) n = Some d)
       then None else map_of (sy_forceSync s) n)"
    unfolding step_def eq by (auto split: option.split simp: not_less)
  show ?case using Cons.IH [of "step D row s"] st by auto
qed simp

lemma drop_map_of:
  "map_of (sy_forceSync (ex_sync (dropFulfilledLaterRequests e))) n =
    (if \<not> ex_isLimitedExecution e \<and> (\<exists>row \<in> set (ex_entities e). ee_name row = n \<and> ee_syncType row \<noteq> SyncTypeNone \<and>
          (\<exists>d. map_of (ex_deferredSync e) n = Some d \<and> rq_Type d \<le> ee_syncType row \<and> map_of (sy_forceSync (ex_sync e)) n = Some d))
     then None else map_of (sy_forceSync (ex_sync e)) n)"
proof (cases "ex_isLimitedExecution e")
  case False
  then show ?thesis
    using drop_fold_map_of [of "ex_deferredSync e" "ex_entities e" "ex_sync e" n]
    by (simp only: dropFulfilledLaterRequests_def if_False Execution.select_convs Execution.update_convs simp_thms) simp
qed (simp add: dropFulfilledLaterRequests_def)

text \<open>The state before the requests are dropped, and what happens to its rows.\<close>

definition planned :: "run_input \<Rightarrow> Execution \<Rightarrow> Execution" where
  "planned I e = checkLinkedSynchronization (fst (run_begin I (e, [])))"

lemma started_planned: "started I e = check_duplicated I ((dropFulfilledLaterRequests (planned I e))\<lparr>ex_syncListStarted := True\<rparr>)"
  by (simp add: started_def planned_def)

lemma planned_sync [simp]: "ex_sync (planned I e) = ex_sync (fst (run_begin I (e, [])))"
  by (simp add: planned_def checkLinkedSynchronization_def Let_def)

lemma planned_frame: "frame (planned I e) = frame e"
proof -
  have "frame (fst (run_begin I (e, []))) = frame e" by (rule frame_inv.start) simp
  then show ?thesis by (simp add: planned_def checkLinkedSynchronization_def Let_def frame_def)
qed

lemma started_run_grows: "grows (ex_entities (started I e)) (ex_entities (fst (run_calls I e)))"
proof -
  have "grows (ex_entities (started I e)) (ex_entities (fst (refreshed I e)))"
    unfolding refreshed_def using synchronizersCall_grows [of "(started I e, snd (run_begin I (e, [])))"] by (simp only: fst_conv)
  then show ?thesis unfolding run_calls_alt by (rule grows_trans [OF _ synchronizersCall_grows])
qed

lemma planned_grows: "grows (ex_entities (planned I e)) (ex_entities (fst (run_calls I e)))"
proof -
  let ?d = "(dropFulfilledLaterRequests (planned I e))\<lparr>ex_syncListStarted := True\<rparr>"
  have "grows (ex_entities ?d) (ex_entities (started I e))" unfolding started_planned by (rule check_duplicated_grows)
  from grows_trans [OF this started_run_grows] show ?thesis by simp
qed

lemma finish_rows_entities:
  assumes "ex_syncListStarted e"
  shows "ex_entities (fold (finish_row now) rows e) = ex_entities e"
proof -
  have "ex_syncListStarted e' \<and> ex_entities e' = ex_entities e"
    if "e' = fold (finish_row now) rows e" for e'
    unfolding that by (rule fold_keeps) (use assms in \<open>simp_all add: finish_row_def Let_def RequestSynchronization_def\<close>)
  then show ?thesis by simp
qed

lemma run_entities: "ex_entities (fst (run I e)) = ex_entities (fst (run_calls I e))"
  unfolding run_alt by (rule finish_rows_entities) (rule run_calls_started)

lemma pending_run:
  assumes "pending n t d (ex_sync (dropFulfilledLaterRequests (planned I e)))"
  shows "pending n t d (ex_sync (fst (run I e)))"
proof -
  have "pending n t d (ex_sync (started I e))"
    unfolding started_planned by (rule pending_inv.duplicated) (use assms in simp)
  then have "pending n t d (ex_sync (fst (run_calls I e)))"
    unfolding run_calls_alt refreshed_def by (intro pending_inv.phases) simp
  then show ?thesis unfolding run_alt
    using fold_keeps [of "\<lambda>e. pending n t d (ex_sync e)" "finish_row (in_end I)"] finish_row_pending by blast
qed

text \<open>
  C30 (a later request is kept, or its entity was planned). Take a request that is pending when an execution
  runs. Whatever the entities and the other goroutines do, at the end of the run it is pending, or merged in a stronger or
  earlier one, with its own deadline or the date of the end. The only exception is an execution that is neither limited nor
  restricted to the essential: when the request was deferred at its start, at least as strong and as early, and
  the row of the entity was given a type at least as strong, and was not skipped. Whether the planned synchronization
  succeeded is not looked at.
\<close>

theorem later_request_kept:
  assumes "map_of (sy_forceSync (ex_sync e)) n = Some r"
  shows "(\<exists>r'. map_of (sy_forceSync (ex_sync (fst (run I e)))) n = Some r' \<and> rq_Type r \<le> rq_Type r' \<and>
            rq_Deadline r' \<le> max (rq_Deadline r) (in_end I)) \<or>
         \<not> ex_isLimitedExecution e \<and> \<not> ex_onlyEssential e \<and>
         (\<exists>d row. map_of (ex_deferredSync e) n = Some d \<and> rq_Type r \<le> rq_Type d \<and> rq_Deadline d \<le> rq_Deadline r \<and>
            row \<in> set (ex_entities (fst (run I e))) \<and> en_Name (ee_entity row) = n \<and> rq_Type d \<le> ee_syncType row \<and>
            ee_syncType row \<noteq> SyncTypeNone \<and> ee_err row \<noteq> Some ErrSkippedExecution)"
proof -
  let ?p = "planned I e" and ?rows = "ex_entities (fst (run_calls I e))"
  have "pending n (rq_Type r) (rq_Deadline r) (ex_sync e)" using assms by (simp add: pending_def)
  then have pe: "pending n (rq_Type r) (rq_Deadline r) (ex_sync ?p)" unfolding planned_sync by (rule pending_inv.start)
  have fr: "ex_isLimitedExecution ?p = ex_isLimitedExecution e" "ex_deferredSync ?p = ex_deferredSync e"
    using planned_frame [of I e] by (simp_all add: frame_def)
  have fr': "ex_onlyEssential (fst (run_calls I e)) = ex_onlyEssential e" using run_calls_frame [of I e] by (simp add: frame_def)
  have weak: "pending n (rq_Type r) d (ex_sync (fst (run I e))) \<Longrightarrow> d \<le> max (rq_Deadline r) (in_end I) \<Longrightarrow> ?thesis" for d
    unfolding pending_def using order_trans by blast
  show ?thesis
  proof (cases "pending n (rq_Type r) (rq_Deadline r) (ex_sync (dropFulfilledLaterRequests ?p))")
    case True
    show ?thesis by (rule weak [OF pending_run [OF True]]) simp
  next
    case False
    then have "map_of (sy_forceSync (ex_sync (dropFulfilledLaterRequests ?p))) n \<noteq> map_of (sy_forceSync (ex_sync ?p)) n"
      using pe by (auto simp: pending_def)
    then obtain row d where row: "\<not> ex_isLimitedExecution e" "row \<in> set (ex_entities ?p)" "ee_name row = n" "ee_syncType row \<noteq> SyncTypeNone"
      and d: "map_of (ex_deferredSync e) n = Some d" "rq_Type d \<le> ee_syncType row" "map_of (sy_forceSync (ex_sync ?p)) n = Some d"
      unfolding drop_map_of fr by (auto split: if_splits)
    have rd: "rq_Type r \<le> rq_Type d" "rq_Deadline d \<le> rq_Deadline r" using pe d(3) by (simp_all add: pending_def)
    obtain i where i: "i < length (ex_entities ?p)" "ex_entities ?p ! i = row" using row(2) by (auto simp: in_set_conv_nth)
    let ?row = "?rows ! i"
    have in_rows: "?row \<in> set ?rows" using i(1) grows_length [OF planned_grows [of I e]] by simp
    have fin: "ee_name ?row = n" "rq_Type d \<le> ee_syncType ?row" "ee_syncType ?row \<noteq> SyncTypeNone"
      using grows_nth [OF planned_grows i(1)] i(2) row(3,4) d(2) by (auto simp: grows_row_def)
    show ?thesis
    proof (cases "ee_err ?row = Some ErrSkippedExecution \<or> ex_onlyEssential e")
      case True
      have "pending n (rq_Type r) (in_end I) (ex_sync (fst (run I e)))"
        using finish_rows_again [OF run_calls_started in_rows, where t = "rq_Type r" and now = "in_end I"] True fin fr' rd
        unfolding run_alt by auto
      then show ?thesis by (rule weak) simp
    next
      case False
      then show ?thesis using row(1) d(1) rd in_rows fin run_entities [of I e] by (intro disjI2) auto
    qed
  qed
qed

section \<open>Due requests that fail\<close>









lemma exec_apply_started [simp]: "ex_syncListStarted (exec_apply c e) = ex_syncListStarted e"
  using exec_apply_frame [of c e] by (simp add: frame_def)



















section \<open>Examples\<close>

definition later_execution :: Execution where
  "later_execution = newExecution [quiet_entity] 50 False False quiet_sync"

theorem later_request_kept_witness:
  "(\<exists>r'. map_of (sy_forceSync (ex_sync (fst (run quiet_input later_execution)))) ''facts'' = Some r' \<and> SyncTypeNormal \<le> rq_Type r' \<and>
      rq_Deadline r' \<le> 100) \<or>
   \<not> ex_isLimitedExecution later_execution \<and> \<not> ex_onlyEssential later_execution \<and>
   (\<exists>d row. map_of (ex_deferredSync later_execution) ''facts'' = Some d \<and> SyncTypeNormal \<le> rq_Type d \<and> rq_Deadline d \<le> 90 \<and>
      row \<in> set (ex_entities (fst (run quiet_input later_execution))) \<and> en_Name (ee_entity row) = ''facts'' \<and>
      rq_Type d \<le> ee_syncType row \<and> ee_syncType row \<noteq> SyncTypeNone \<and> ee_err row \<noteq> Some ErrSkippedExecution)"
proof -
  have "map_of (sy_forceSync (ex_sync later_execution)) ''facts'' = Some \<lparr>rq_Type = SyncTypeNormal, rq_Deadline = 90\<rparr>"
    by code_simp
  from later_request_kept [OF this, of quiet_input] show ?thesis by (simp add: quiet_input_def max_def)
qed


end
