(* ===== verification/Wire.thy ===== *)
theory Wire
  imports Prelude
begin

text \<open>
  What the two monitoring servers use of Go's libraries: \<^verbatim>\<open>encoding/binary\<close> for integers of fixed width,
  \<^verbatim>\<open>hash/crc32\<close>, \<^verbatim>\<open>copy\<close> into a slice, and the \<^verbatim>\<open>Read\<close> of a network connection. Bytes are characters, as in a
  Go string.
\<close>

unbundle bit_operations_syntax

section \<open>Integers on the wire\<close>

text \<open>The value of an integer variable of \<open>w\<close> bits, two's complement.\<close>

definition signed :: "nat \<Rightarrow> int \<Rightarrow> int" where
  "signed w v = (v + 2 ^ (w - 1)) mod 2 ^ w - 2 ^ (w - 1)"

definition byte :: "int \<Rightarrow> char" where
  "byte v = char_of (nat (v mod 256))"

fun be_bytes :: "nat \<Rightarrow> int \<Rightarrow> string" where
  "be_bytes 0 v = []"
| "be_bytes (Suc n) v = byte (v div 256 ^ n) # be_bytes n v"

definition be_value :: "string \<Rightarrow> int" where
  "be_value s = foldl (\<lambda>v c. 256 * v + int (of_char c)) 0 s"

definition le_bytes :: "nat \<Rightarrow> int \<Rightarrow> string" where
  "le_bytes n v = rev (be_bytes n v)"

definition le_value :: "string \<Rightarrow> int" where
  "le_value s = be_value (rev s)"

lemma be_bytes_length [simp]: "length (be_bytes n v) = n"
  by (induction n) simp_all

lemma le_bytes_length [simp]: "length (le_bytes n v) = n"
  by (simp add: le_bytes_def)

lemma of_char_byte [simp]: "int (of_char (byte v)) = v mod 256"
  by (simp add: byte_def)

lemma be_value_foldl: "foldl (\<lambda>v c. 256 * v + int (of_char c)) a (be_bytes n v) = a * 256 ^ n + v mod 256 ^ n"
proof (induction n arbitrary: a)
  case (Suc n)
  have "v mod 256 ^ Suc n = (v div 256 ^ n) mod 256 * 256 ^ n + v mod 256 ^ n"
    using mod_mult2_eq' [of v "256 ^ n" 256] by (simp add: mult.commute)
  then show ?case using Suc by (simp add: algebra_simps)
qed simp

lemma be_value_be_bytes [simp]: "be_value (be_bytes n v) = v mod 256 ^ n"
  by (simp add: be_value_def be_value_foldl)

lemma le_value_le_bytes [simp]: "le_value (le_bytes n v) = v mod 256 ^ n"
  by (simp add: le_value_def le_bytes_def)

lemma signed_mod: "signed w (v mod 2 ^ w) = signed w v"
  by (simp add: signed_def mod_simps)

lemma signed_id: "- (2 ^ (w - 1)) \<le> v \<Longrightarrow> v < 2 ^ (w - 1) \<Longrightarrow> 0 < w \<Longrightarrow> signed w v = v"
  by (cases w) (simp_all add: signed_def)

section \<open>Checksum\<close>

text \<open>
  The reflected polynomial of IEEE 802.3, one bit at a time, on a register of 32 bits held as a number below
  \<open>2 ^ 32\<close>: shifting right and XOR never leave that range.
\<close>

definition crc_bit :: "int \<Rightarrow> int" where
  "crc_bit c = (if c mod 2 = 1 then (c div 2) XOR 0xEDB88320 else c div 2)"

definition crc_byte :: "int \<Rightarrow> char \<Rightarrow> int" where
  "crc_byte c b = crc_bit (crc_bit (crc_bit (crc_bit (crc_bit (crc_bit (crc_bit (crc_bit (c XOR int (of_char b)))))))))"

definition ChecksumIEEE :: "string \<Rightarrow> int" where
  "ChecksumIEEE s = foldl crc_byte 0xFFFFFFFF s XOR 0xFFFFFFFF"

lemma xor_32:
  fixes x y :: int
  shows "0 \<le> x \<and> x < 2 ^ 32 \<Longrightarrow> 0 \<le> y \<and> y < 2 ^ 32 \<Longrightarrow> 0 \<le> x XOR y \<and> x XOR y < 2 ^ 32"
  using XOR_upper [of x 32 y] by (simp add: xor_nonnegative_int_iff)

lemma crc_bit_range: "0 \<le> c \<and> c < 2 ^ 32 \<Longrightarrow> 0 \<le> crc_bit c \<and> crc_bit c < 2 ^ 32"
  unfolding crc_bit_def using xor_32 [of "c div 2" "0xEDB88320"] by auto

lemma crc_byte_range: "0 \<le> c \<and> c < 2 ^ 32 \<Longrightarrow> 0 \<le> crc_byte c b \<and> crc_byte c b < 2 ^ 32"
proof -
  assume c: "0 \<le> c \<and> c < 2 ^ 32"
  have "of_char b mod (256 :: nat) = of_char b" by simp
  then have "of_char b < (256 :: nat)" by (metis mod_less_divisor zero_less_numeral)
  then have "0 \<le> int (of_char b) \<and> int (of_char b) < 2 ^ 32" by (simp, linarith)
  then show ?thesis unfolding crc_byte_def by (intro crc_bit_range xor_32 [OF c])
qed

lemma ChecksumIEEE_range: "0 \<le> ChecksumIEEE s \<and> ChecksumIEEE s < 2 ^ 32"
proof -
  have "0 \<le> foldl crc_byte c s \<and> foldl crc_byte c s < 2 ^ 32" if "0 \<le> c \<and> c < 2 ^ 32" for c
    using that by (induction s arbitrary: c) (simp_all add: crc_byte_range del: power_numeral)
  then show ?thesis unfolding ChecksumIEEE_def by (intro xor_32) simp_all
qed

lemma ChecksumIEEE_mod [simp]: "ChecksumIEEE s mod 256 ^ 4 = ChecksumIEEE s"
  using ChecksumIEEE_range [of s] by simp

lemmas crc_eval = ChecksumIEEE_def crc_byte_def crc_bit_def

text \<open>The check value of the algorithm.\<close>

lemma ChecksumIEEE_check: "ChecksumIEEE ''123456789'' = 0xCBF43926"
  by (simp add: crc_eval)

section \<open>Slices\<close>

text \<open>\<^verbatim>\<open>copy(dst[i:j], src)\<close> where \<open>n = j - i\<close> is the room in the slice.\<close>

definition copy_at :: "nat \<Rightarrow> nat \<Rightarrow> string \<Rightarrow> string \<Rightarrow> string" where
  "copy_at i n src dst = take i dst @ take n src @ drop (i + min n (length src)) dst"

lemma copy_at_length [simp]: "i + n \<le> length dst \<Longrightarrow> length (copy_at i n src dst) = length dst"
  by (auto simp: copy_at_def min_def)

section \<open>Connections\<close>

text \<open>
  The bytes a peer sends, in the segments in which they arrive. One \<^verbatim>\<open>Read\<close> returns what has
  arrived, at most as many bytes as the slice has room for; it does not wait for the slice to be full.
  After the last segment, it fails (end of the stream, or the deadline of the connection).
\<close>

type_synonym connection = "string list"

fun conn_Read :: "nat \<Rightarrow> connection \<Rightarrow> (string \<times> connection) option" where
  "conn_Read n c =
     (if n = 0 then Some ([], c)
      else case c of
             [] \<Rightarrow> None
           | seg # rest \<Rightarrow> if length seg \<le> n then Some (seg, rest) else Some (take n seg, drop n seg # rest))"

text \<open>A slice made with \<open>n\<close> zero bytes after a \<^verbatim>\<open>Read\<close> into it.\<close>

definition read_into :: "nat \<Rightarrow> connection \<Rightarrow> (string \<times> connection) option" where
  "read_into n c = map_option (\<lambda>(s, c). (s @ replicate (n - length s) (CHR 0x00), c)) (conn_Read n c)"

lemma read_into_length: "read_into n c = Some (s, c') \<Longrightarrow> length s = n"
  by (auto simp: read_into_def split: if_splits list.splits)

lemma read_into_exact: "length seg = n \<Longrightarrow> 0 < n \<Longrightarrow> read_into n (seg # rest) = Some (seg, rest)"
  by (simp add: read_into_def)

lemma read_into_short: "n < length seg \<Longrightarrow> 0 < n \<Longrightarrow> read_into n (seg # rest) = Some (take n seg, drop n seg # rest)"
  by (simp add: read_into_def)

text \<open>\<^verbatim>\<open>bytes.IndexByte\<close> and \<^verbatim>\<open>strings.Index\<close> of one byte.\<close>

fun index_byte :: "char \<Rightarrow> string \<Rightarrow> nat option" where
  "index_byte b [] = None"
| "index_byte b (c # s) = (if c = b then Some 0 else map_option Suc (index_byte b s))"

lemma index_byte_append: "b \<notin> set s \<Longrightarrow> index_byte b (s @ b # t) = Some (length s)"
  by (induction s) auto

lemma index_byte_None [simp]: "index_byte b s = None \<longleftrightarrow> b \<notin> set s"
  by (induction s) auto

lemma index_byte_Some: "index_byte b s = Some i \<Longrightarrow> i < length s \<and> s ! i = b \<and> b \<notin> set (take i s)"
  by (induction s arbitrary: i) (auto split: if_splits)

end
