(* ===== verification/NrpeServer.thy ===== *)
theory NrpeServer
  imports Wire
begin

text \<open>
  The NRPE server (\<^verbatim>\<open>nrpe/server.go\<close>): the packets of versions 2 and 3 of the protocol, and the handler of a
  connection. The listener, its TLS certificate and the deadline of the connection are not modelled; what they let
  through is the sequence of segments the handler reads.
\<close>

section \<open>Packets\<close>

definition maxBufferLength :: int where
  "maxBufferLength = 64 * 1024"

record reducedPacket =
  np_packetVersion :: int
  np_packetType :: int
  np_resultCode :: int
  np_buffer :: string

datatype nrpe_error = NrpeReadError | ErrWrongValue | ErrInvalidBufferLength | ErrMissingNullByte

abbreviation (input) zeros :: "nat \<Rightarrow> string" where
  "zeros n \<equiv> replicate n (CHR 0x00)"

definition decode_head :: "string \<Rightarrow> reducedPacket \<times> int \<times> int" where
  "decode_head packetHead =
     (let packetVersion = signed 16 (be_value (take 2 packetHead));
          packetType = signed 16 (be_value (take 2 (drop 2 packetHead)));
          crc32value = be_value (take 4 (drop 4 packetHead));
          resultCode = signed 16 (be_value (take 2 (drop 8 packetHead)));
          resultCode = (if packetType = 1 then 0 else resultCode);
          bufferlength = (if packetVersion = 3 then signed 32 (be_value (take 4 (drop 12 packetHead))) else 0);
          bufferlength = (if packetVersion = 2 then 1017 else bufferlength)
      in (\<lparr>np_packetVersion = packetVersion, np_packetType = packetType, np_resultCode = resultCode, np_buffer = []\<rparr>,
          crc32value, bufferlength))"

definition nrpe_decode :: "connection \<Rightarrow> nrpe_error + reducedPacket" where
  "nrpe_decode r =
     (case read_into 16 r of
        None \<Rightarrow> Inl NrpeReadError
      | Some (packetHead, r) \<Rightarrow>
          let (decodedPacket, crc32value, bufferlength) = decode_head packetHead
          in if bufferlength < 0 \<or> maxBufferLength < bufferlength then Inl ErrInvalidBufferLength
             else case read_into (nat (bufferlength + 3)) r of
                    None \<Rightarrow> Inl NrpeReadError
                  | Some (packetBuffer, r) \<Rightarrow>
                      let completePacket = take 4 packetHead @ zeros 4 @ drop 8 packetHead @ packetBuffer
                      in if ChecksumIEEE completePacket \<noteq> crc32value then Inl ErrWrongValue
                         else case index_byte (CHR 0x00) packetBuffer of
                                None \<Rightarrow> Inl ErrMissingNullByte
                              | Some i \<Rightarrow>
                                  let packetBuffer = take i packetBuffer
                                  in Inr (if np_packetVersion decodedPacket = 3 then decodedPacket\<lparr>np_buffer := packetBuffer\<rparr>
                                          else if np_packetVersion decodedPacket = 2
                                          then decodedPacket\<lparr>np_buffer := drop 10 packetHead @ packetBuffer\<rparr>
                                          else decodedPacket))"

definition encodeV2 :: "reducedPacket \<Rightarrow> string \<Rightarrow> string" where
  "encodeV2 decodedPacket randBytes =
     (let buffer = np_buffer decodedPacket;
          encodedPacket = (zeros 1036)[1 := CHR 0x02];
          encodedPacket = copy_at 2 2 (be_bytes 2 2) encodedPacket;
          encodedPacket = copy_at 8 2 (be_bytes 2 (np_resultCode decodedPacket)) encodedPacket;
          encodedPacket = (if 1023 < length buffer then copy_at 10 1023 buffer encodedPacket
                           else copy_at 10 (length buffer) buffer encodedPacket);
          encodedPacket = encodedPacket[1034 := randBytes ! 0, 1035 := randBytes ! 1]
      in copy_at 4 4 (be_bytes 4 (ChecksumIEEE encodedPacket)) encodedPacket)"

definition encodeV3 :: "reducedPacket \<Rightarrow> string" where
  "encodeV3 decodedPacket =
     (let buffer = np_buffer decodedPacket;
          bufferLength = signed 32 (int (length buffer));
          encodedPacket = zeros (19 + length buffer);
          encodedPacket = copy_at 0 2 (be_bytes 2 (np_packetVersion decodedPacket)) encodedPacket;
          encodedPacket = copy_at 2 2 (be_bytes 2 2) encodedPacket;
          encodedPacket = copy_at 12 4 (be_bytes 4 bufferLength) encodedPacket;
          encodedPacket = copy_at 8 2 (be_bytes 2 (np_resultCode decodedPacket)) encodedPacket;
          encodedPacket = copy_at 16 (length buffer) buffer encodedPacket
      in copy_at 4 4 (be_bytes 4 (ChecksumIEEE encodedPacket)) encodedPacket)"

text \<open>
  The handler: \<open>cb\<close> answers a command with an output, a code and possibly an error, given by its text; \<open>version\<close> is
  the version of the agent. The result is what is written before the connection is closed, if anything is.
\<close>

definition nrpe_handleConnection ::
  "string \<Rightarrow> (string \<Rightarrow> string \<times> int \<times> string option) \<Rightarrow> string \<Rightarrow> connection \<Rightarrow> string option" where
  "nrpe_handleConnection version cb rndBytes c =
     (case nrpe_decode c of
        Inl _ \<Rightarrow> None
      | Inr decodedRequest \<Rightarrow>
          let (buffer, resultCode, err) =
                (if np_buffer decodedRequest = ''_NRPE_CHECK'' then (''NRPE v3 (Glouton '' @ version @ '')'', 0, None)
                 else cb (np_buffer decodedRequest));
              answer = \<lparr>np_packetVersion = np_packetVersion decodedRequest, np_packetType = 0,
                        np_resultCode = resultCode, np_buffer = buffer\<rparr>;
              answer = (case err of None \<Rightarrow> answer | Some e \<Rightarrow> answer\<lparr>np_buffer := e, np_resultCode := 3\<rparr>)
          in Some (if np_packetVersion answer = 3 then encodeV3 answer else encodeV2 answer rndBytes))"

section \<open>The layout of a packet\<close>

definition packet :: "int \<Rightarrow> int \<Rightarrow> int \<Rightarrow> int \<Rightarrow> string \<Rightarrow> string" where
  "packet ver ty crc rc rest = be_bytes 2 ver @ be_bytes 2 ty @ be_bytes 4 crc @ be_bytes 2 rc @ rest"

text \<open>A packet whose checksum is the one of its contents.\<close>

definition sealed :: "int \<Rightarrow> int \<Rightarrow> int \<Rightarrow> string \<Rightarrow> string" where
  "sealed ver ty rc rest = packet ver ty (ChecksumIEEE (packet ver ty 0 rc rest)) rc rest"

lemma byte_0 [simp]: "byte 0 = CHR 0x00"
  by code_simp

lemma be_bytes_0: "be_bytes n 0 = zeros n"
  by (induction n) simp_all

lemma copy_at_mid:
  "length pre = i \<Longrightarrow> length mid = n \<Longrightarrow> length src = n \<Longrightarrow> copy_at i n src (pre @ mid @ post) = pre @ src @ post"
  by (simp add: copy_at_def)

lemma packet_seal: "copy_at 4 4 (be_bytes 4 crc) (packet ver ty 0 rc rest) = packet ver ty crc rc rest"
  using copy_at_mid [of "be_bytes 2 ver @ be_bytes 2 ty" 4 "be_bytes 4 0" 4 "be_bytes 4 crc" "be_bytes 2 rc @ rest"]
  by (simp add: packet_def)

lemma zeros_split: "zeros (19 + n) = zeros 2 @ zeros 2 @ zeros 4 @ zeros 2 @ zeros 2 @ zeros 4 @ zeros n @ zeros 3"
  by (simp only: replicate_add [symmetric]) simp

lemma encodeV3_layout:
  "encodeV3 p = sealed (np_packetVersion p) 2 (np_resultCode p)
     (zeros 2 @ be_bytes 4 (signed 32 (int (length (np_buffer p)))) @ np_buffer p @ zeros 3)"
proof -
  let ?b = "np_buffer p" and ?v = "be_bytes 2 (np_packetVersion p)" and ?t = "be_bytes 2 2"
    and ?l = "be_bytes 4 (signed 32 (int (length (np_buffer p))))" and ?rc = "be_bytes 2 (np_resultCode p)"
  let ?z = "zeros 2 @ zeros 4 @ zeros (length ?b) @ zeros 3"
  have 1: "copy_at 0 2 ?v (zeros (19 + length ?b)) = ?v @ zeros 2 @ zeros 4 @ zeros 2 @ ?z"
    using copy_at_mid [of "[]" 0 "zeros 2" 2 ?v "zeros 2 @ zeros 4 @ zeros 2 @ ?z"] unfolding zeros_split by simp
  have 2: "copy_at 2 2 ?t (?v @ zeros 2 @ zeros 4 @ zeros 2 @ ?z) = ?v @ ?t @ zeros 4 @ zeros 2 @ ?z"
    by (rule copy_at_mid) simp_all
  have 3: "copy_at 12 4 ?l (?v @ ?t @ zeros 4 @ zeros 2 @ ?z) = ?v @ ?t @ zeros 4 @ zeros 2 @ zeros 2 @ ?l @ zeros (length ?b) @ zeros 3"
    using copy_at_mid [of "?v @ ?t @ zeros 4 @ zeros 2 @ zeros 2" 12 "zeros 4" 4 ?l "zeros (length ?b) @ zeros 3"]
    by (simp del: append_assoc add: append_assoc [symmetric])
  have 4: "copy_at 8 2 ?rc (?v @ ?t @ zeros 4 @ zeros 2 @ zeros 2 @ ?l @ zeros (length ?b) @ zeros 3) =
      ?v @ ?t @ zeros 4 @ ?rc @ zeros 2 @ ?l @ zeros (length ?b) @ zeros 3"
    using copy_at_mid [of "?v @ ?t @ zeros 4" 8 "zeros 2" 2 ?rc "zeros 2 @ ?l @ zeros (length ?b) @ zeros 3"]
    by (simp del: append_assoc add: append_assoc [symmetric])
  have 5: "copy_at 16 (length ?b) ?b (?v @ ?t @ zeros 4 @ ?rc @ zeros 2 @ ?l @ zeros (length ?b) @ zeros 3) =
      packet (np_packetVersion p) 2 0 (np_resultCode p) (zeros 2 @ ?l @ ?b @ zeros 3)"
    using copy_at_mid [of "?v @ ?t @ zeros 4 @ ?rc @ zeros 2 @ ?l" 16 "zeros (length ?b)" "length ?b" ?b "zeros 3"]
    unfolding packet_def be_bytes_0 by (simp del: append_assoc add: append_assoc [symmetric])
  show ?thesis unfolding encodeV3_def Let_def 1 2 3 4 5 packet_seal sealed_def ..
qed

lemma version_2: "(zeros 1036)[1 := CHR 0x02] = be_bytes 2 2 @ zeros 1034"
proof -
  have "zeros 1036 = [CHR 0x00, CHR 0x00] @ zeros 1034" using replicate_add [of 2 1034 "CHR 0x00"] by (simp add: numeral_2_eq_2)
  moreover have "be_bytes 2 2 = [CHR 0x00, CHR 0x02]" by code_simp
  ultimately show ?thesis by simp
qed

lemma set_last_two:
  assumes "length xs + n = i"
  shows "(xs @ zeros (n + 2))[i := a, Suc i := b] = xs @ zeros n @ [a, b]"
proof -
  have "zeros (n + 2) = zeros n @ [CHR 0x00, CHR 0x00]" by (simp add: replicate_add numeral_2_eq_2 replicate_app_Cons_same)
  then show ?thesis using assms by (auto simp: list_update_append)
qed

lemma encodeV2_body:
  assumes "length buf \<le> 1023"
  shows "copy_at 10 (length buf) buf (copy_at 8 2 (be_bytes 2 rc) (copy_at 2 2 (be_bytes 2 2) (be_bytes 2 2 @ zeros 1034))) =
    (be_bytes 2 2 @ be_bytes 2 2 @ zeros 4 @ be_bytes 2 rc @ buf) @ zeros ((1024 - length buf) + 2)"
proof -
  have "(1024 - length buf) + 2 = 1026 - length buf" using assms by simp
  then show ?thesis using assms by (simp only:) (simp add: copy_at_def)
qed

lemma copy_at_take: "copy_at i n (take n src) dst = copy_at i n src dst"
  by (simp add: copy_at_def min_def)

lemma encodeV2_layout:
  assumes "length r = 2"
  shows "encodeV2 p r = sealed 2 2 (np_resultCode p)
     (take 1023 (np_buffer p) @ zeros (1024 - min 1023 (length (np_buffer p))) @ r)"
proof -
  obtain a b where r: "r = [a, b]" using assms by (auto simp: numeral_2_eq_2 length_Suc_conv)
  let ?buf = "take 1023 (np_buffer p)" and ?rc = "np_resultCode p"
  let ?head = "copy_at 8 2 (be_bytes 2 ?rc) (copy_at 2 2 (be_bytes 2 2) (be_bytes 2 2 @ zeros 1034))"
  have copied: "(if 1023 < length (np_buffer p) then copy_at 10 1023 (np_buffer p) ?head
      else copy_at 10 (length (np_buffer p)) (np_buffer p) ?head) = copy_at 10 (length ?buf) ?buf ?head"
    by (simp add: copy_at_take)
  have set: "((be_bytes 2 2 @ be_bytes 2 2 @ zeros 4 @ be_bytes 2 ?rc @ ?buf) @ zeros ((1024 - length ?buf) + 2))[1034 := a, 1035 := b] =
      packet 2 2 0 ?rc (?buf @ zeros (1024 - length ?buf) @ r)"
    using set_last_two [of "be_bytes 2 2 @ be_bytes 2 2 @ zeros 4 @ be_bytes 2 ?rc @ ?buf" "1024 - length ?buf" 1034 a b]
    by (simp add: packet_def be_bytes_0 r)
  have body: "copy_at 10 (length ?buf) ?buf ?head =
      (be_bytes 2 2 @ be_bytes 2 2 @ zeros 4 @ be_bytes 2 ?rc @ ?buf) @ zeros ((1024 - length ?buf) + 2)"
    by (rule encodeV2_body) simp
  have "encodeV2 p r = sealed 2 2 ?rc (?buf @ zeros (1024 - length ?buf) @ r)"
    unfolding encodeV2_def Let_def version_2 copied body by (simp only: r nth_Cons_0 nth_Cons_Suc One_nat_def set [unfolded r] packet_seal sealed_def)
  then show ?thesis by (simp add: min.commute)
qed

section \<open>Decoding a sealed packet\<close>

lemma decode_head_packet:
  assumes "length pad = 2" "length len = 4"
  shows "decode_head (packet ver ty crc rc (pad @ len)) =
    (\<lparr>np_packetVersion = signed 16 ver, np_packetType = signed 16 ty,
      np_resultCode = (if signed 16 ty = 1 then 0 else signed 16 rc), np_buffer = []\<rparr>,
     crc mod 256 ^ 4, if signed 16 ver = 3 then signed 32 (be_value len) else if signed 16 ver = 2 then 1017 else 0)"
  using assms signed_mod [of 16 ver] signed_mod [of 16 ty] signed_mod [of 16 rc]
  by (simp add: decode_head_def packet_def Let_def)

lemma nrpe_decode_sealed:
  assumes "length pad = 2" "length len = 4"
    and "bl = (if signed 16 ver = 3 then signed 32 (be_value len) else if signed 16 ver = 2 then 1017 else 0)"
    and "0 \<le> bl" "bl \<le> maxBufferLength" "int (length body) = bl + 3"
  shows "nrpe_decode [sealed ver ty rc (pad @ len @ body)] =
    (case index_byte (CHR 0x00) body of
       None \<Rightarrow> Inl ErrMissingNullByte
     | Some i \<Rightarrow> Inr \<lparr>np_packetVersion = signed 16 ver, np_packetType = signed 16 ty,
          np_resultCode = (if signed 16 ty = 1 then 0 else signed 16 rc),
          np_buffer = (if signed 16 ver = 3 then take i body else if signed 16 ver = 2 then pad @ len @ take i body else [])\<rparr>)"
proof -
  let ?crc = "ChecksumIEEE (packet ver ty 0 rc (pad @ len @ body))"
  let ?head = "packet ver ty ?crc rc (pad @ len)"
  have p: "sealed ver ty rc (pad @ len @ body) = ?head @ body" by (simp add: sealed_def packet_def)
  have hl: "length ?head = 16" using assms(1,2) by (simp add: packet_def)
  have body: "body \<noteq> []" using assms(4,6) by auto
  have r1: "read_into 16 [?head @ body] = Some (?head, [body])"
    using read_into_short [of 16 "?head @ body" "[]"] hl body by simp
  have "nat (bl + 3) = length body" using assms(6) by (simp add: nat_eq_iff)
  then have r2: "read_into (nat (bl + 3)) [body] = Some (body, [])"
    using read_into_exact [of body "nat (bl + 3)" "[]"] body by simp
  have crc: "take 4 ?head @ zeros 4 @ drop 8 ?head @ body = packet ver ty 0 rc (pad @ len @ body)"
    by (simp add: packet_def be_bytes_0)
  have drop: "drop 10 ?head = pad @ len" by (simp add: packet_def)
  have hd: "decode_head ?head = (\<lparr>np_packetVersion = signed 16 ver, np_packetType = signed 16 ty,
      np_resultCode = (if signed 16 ty = 1 then 0 else signed 16 rc), np_buffer = []\<rparr>, ?crc, bl)"
    using decode_head_packet [OF assms(1,2), of ver ty ?crc rc] by (simp only: assms(3) ChecksumIEEE_mod)
  show ?thesis
  proof (cases "index_byte (CHR 0x00) body")
    case None
    then show ?thesis unfolding nrpe_decode_def p r1 using assms(4,5) by (simp del: index_byte_None add: hd r2 crc Let_def)
  next
    case (Some i)
    then show ?thesis unfolding nrpe_decode_def p r1 using assms(4,5) by (simp add: hd r2 crc drop Let_def)
  qed
qed

section \<open>Properties\<close>

text \<open>
  An answer a client can decode, and the text it gets: a packet of version 2 has room for 1023 bytes, and a text
  of fewer than six is followed by the zero bytes of the first six.
\<close>

definition sendable :: "int \<Rightarrow> int \<Rightarrow> string \<Rightarrow> bool" where
  "sendable ver code out \<longleftrightarrow> CHR 0x00 \<notin> set out \<and> - 32768 \<le> code \<and> code < 32768 \<and> (ver = 3 \<longrightarrow> length out \<le> 65536)"

definition received :: "int \<Rightarrow> string \<Rightarrow> string" where
  "received ver out = (if ver = 3 then out else take 1023 out @ replicate (6 - length out) (CHR 0x00))"

lemma signed_16: "- 32768 \<le> v \<Longrightarrow> v < 32768 \<Longrightarrow> signed 16 v = v"
  by (simp add: signed_id)

lemma signed_32: "- 2147483648 \<le> v \<Longrightarrow> v < 2147483648 \<Longrightarrow> signed 32 v = v"
  by (simp add: signed_id)

lemma zeros_Suc: "zeros (Suc n) = CHR 0x00 # zeros n"
  by simp

lemma decode_encodeV3:
  assumes "sendable 3 (np_resultCode p) (np_buffer p)" "np_packetVersion p = 3"
  shows "nrpe_decode [encodeV3 p] = Inr (p\<lparr>np_packetType := 2\<rparr>)"
proof -
  let ?n = "length (np_buffer p)"
  have n: "signed 32 (int ?n) = int ?n" "?n \<le> 65536" using assms(1) by (simp_all add: sendable_def signed_32)
  have v: "signed 32 (be_value (be_bytes 4 (int ?n))) = int ?n" using n by simp
  have "CHR 0x00 \<notin> set (np_buffer p)" using assms(1) by (simp add: sendable_def)
  then have i: "index_byte (CHR 0x00) (np_buffer p @ zeros 3) = Some ?n"
    using index_byte_append [of "CHR 0x00" "np_buffer p" "zeros 2"] zeros_Suc [of 2] by simp
  have "nrpe_decode [sealed 3 2 (np_resultCode p) (zeros 2 @ be_bytes 4 (int ?n) @ np_buffer p @ zeros 3)] =
      Inr \<lparr>np_packetVersion = 3, np_packetType = 2, np_resultCode = np_resultCode p, np_buffer = np_buffer p\<rparr>"
    using nrpe_decode_sealed [of "zeros 2" "be_bytes 4 (int ?n)" "int ?n" 3 "np_buffer p @ zeros 3" 2 "np_resultCode p"] assms(1) n v i
    by (simp add: signed_16 maxBufferLength_def sendable_def)
  then show ?thesis using assms(2) n(1) by (simp add: encodeV3_layout)
qed

text \<open>A packet of version 2 in which a zero byte is missing after the first six bytes is refused.\<close>

lemma decode_v2_missing:
  assumes "length head = 6" "length body = 1020" "index_byte (CHR 0x00) body = None"
  shows "nrpe_decode [sealed 2 ty rc (head @ body)] = Inl ErrMissingNullByte"
proof -
  define a b where ab: "a = take 2 head" "b = drop 2 head"
  then have "head = a @ b" "length a = 2" "length b = 4" using assms(1) by simp_all
  then show ?thesis
    using nrpe_decode_sealed [of a b 1017 2 body ty rc] assms(2,3) by (simp add: signed_16 maxBufferLength_def del: index_byte_None)
qed

lemma decode_v2:
  assumes "length head = 6" "length body = 1020" "index_byte (CHR 0x00) body = Some i"
  shows "nrpe_decode [sealed 2 ty rc (head @ body)] =
    Inr \<lparr>np_packetVersion = 2, np_packetType = signed 16 ty,
         np_resultCode = (if signed 16 ty = 1 then 0 else signed 16 rc), np_buffer = head @ take i body\<rparr>"
proof -
  define a b where ab: "a = take 2 head" "b = drop 2 head"
  then have "head = a @ b" "length a = 2" "length b = 4" using assms(1) by simp_all
  then show ?thesis
    using nrpe_decode_sealed [of a b 1017 2 body ty rc] assms(2,3) by (simp add: signed_16 maxBufferLength_def)
qed

text \<open>A text of a packet of version 2 without zero bytes.\<close>

lemma decode_sealed_v2:
  assumes "length b \<le> 1023" "CHR 0x00 \<notin> set b" "length r = 2"
  shows "nrpe_decode [sealed 2 ty rc (b @ zeros (1024 - length b) @ r)] =
    Inr \<lparr>np_packetVersion = 2, np_packetType = signed 16 ty,
         np_resultCode = (if signed 16 ty = 1 then 0 else signed 16 rc), np_buffer = b @ zeros (6 - length b)\<rparr>"
proof (cases "length b < 6")
  case True
  then have n: "1024 - length b = (6 - length b) + 1018" by simp
  have "index_byte (CHR 0x00) (zeros 1018 @ r) = Some 0" using zeros_Suc [of 1017] by simp
  then show ?thesis
    using decode_v2 [of "b @ zeros (6 - length b)" "zeros 1018 @ r" 0 ty rc] True assms(3)
    unfolding n replicate_add by simp
next
  case False
  let ?body = "drop 6 b @ zeros (1024 - length b) @ r"
  have z: "zeros (1024 - length b) = CHR 0x00 # zeros (1023 - length b)"
    using zeros_Suc [of "1023 - length b"] assms(1) by (simp only: Suc_diff_le [symmetric]) simp
  have "CHR 0x00 \<notin> set (drop 6 b)" using assms(2) in_set_dropD by fast
  then have "index_byte (CHR 0x00) ?body = Some (length b - 6)"
    using index_byte_append [of "CHR 0x00" "drop 6 b" "zeros (1023 - length b) @ r"] unfolding z by simp
  then have "nrpe_decode [sealed 2 ty rc (take 6 b @ ?body)] = Inr \<lparr>np_packetVersion = 2, np_packetType = signed 16 ty,
      np_resultCode = (if signed 16 ty = 1 then 0 else signed 16 rc), np_buffer = b\<rparr>"
    using decode_v2 [of "take 6 b" ?body "length b - 6" ty rc] False assms by simp
  moreover have "b @ zeros (1024 - length b) @ r = take 6 b @ ?body"
    by (simp add: append_assoc [symmetric] del: append_assoc)
  moreover have "zeros (6 - length b) = []" using False by simp
  ultimately show ?thesis by (simp only: append_Nil2)
qed

lemma decode_encodeV2:
  assumes "sendable 2 (np_resultCode p) (np_buffer p)" "length r = 2" "np_packetVersion p = 2"
  shows "nrpe_decode [encodeV2 p r] = Inr (p\<lparr>np_packetType := 2, np_buffer := received 2 (np_buffer p)\<rparr>)"
proof -
  let ?b = "take 1023 (np_buffer p)"
  have "CHR 0x00 \<notin> set ?b" using assms(1) in_set_takeD by (fastforce simp: sendable_def)
  moreover have "6 - min 1023 (length (np_buffer p)) = 6 - length (np_buffer p)" by simp
  ultimately show ?thesis
    using decode_sealed_v2 [of ?b r 2 "np_resultCode p"] encodeV2_layout [OF assms(2), of p] assms
    by (simp add: signed_16 sendable_def received_def min.commute)
qed

text \<open>
  C7 (the client gets the answer). When a request of version 2 or 3 was decoded, the bytes the handler writes decode to a
  response of the same version with the output and the code of the callback, or with the text of its error
  and the code 3; the request \<^verbatim>\<open>_NRPE_CHECK\<close> gets the version of the agent instead. The text must have no zero byte
  and, for version 3, at most 64 KiB; for version 2 it is cut to 1023 bytes, or filled to six with zero bytes.
\<close>

theorem nrpe_answer:
  assumes "nrpe_decode c = Inr q" "np_packetVersion q \<in> {2, 3}" "length rnd = 2"
    and "(buffer, resultCode, err) =
      (if np_buffer q = ''_NRPE_CHECK'' then (''NRPE v3 (Glouton '' @ version @ '')'', 0, None) else cb (np_buffer q))"
    and "code = (if err = None then resultCode else 3)" "out = (case err of None \<Rightarrow> buffer | Some e \<Rightarrow> e)"
    and "sendable (np_packetVersion q) code out"
  shows "\<exists>bytes. nrpe_handleConnection version cb rnd c = Some bytes \<and>
    nrpe_decode [bytes] = Inr \<lparr>np_packetVersion = np_packetVersion q, np_packetType = 2,
      np_resultCode = code, np_buffer = received (np_packetVersion q) out\<rparr>"
proof -
  let ?a = "\<lparr>np_packetVersion = np_packetVersion q, np_packetType = 0, np_resultCode = code, np_buffer = out\<rparr>"
  have "nrpe_handleConnection version cb rnd c = Some (if np_packetVersion q = 3 then encodeV3 ?a else encodeV2 ?a rnd)"
    using assms(1,5,6) unfolding nrpe_handleConnection_def by (cases err) (simp_all add: assms(4) [symmetric])
  then show ?thesis using decode_encodeV3 [of ?a] decode_encodeV2 [of ?a rnd] assms(2,3,7) by (auto simp: received_def)
qed

definition nrpe_query :: string where
  "nrpe_query = sealed 3 1 0 (zeros 2 @ be_bytes 4 4 @ ''load'' @ zeros 3)"

lemma nrpe_query_decoded:
  "nrpe_decode [nrpe_query] = Inr \<lparr>np_packetVersion = 3, np_packetType = 1, np_resultCode = 0, np_buffer = ''load''\<rparr>"
proof -
  have "index_byte (CHR 0x00) (''load'' @ zeros 3) = Some 4" by code_simp
  then show ?thesis
    using nrpe_decode_sealed [of "zeros 2" "be_bytes 4 4" 4 3 "''load'' @ zeros 3" 1 0]
    by (simp add: nrpe_query_def signed_16 signed_32 maxBufferLength_def)
qed

theorem nrpe_answer_witness:
  "\<exists>bytes. nrpe_handleConnection ''1'' (\<lambda>_. (''OK - 0.1'', 0, None)) ''SQ'' [nrpe_query] = Some bytes \<and>
    nrpe_decode [bytes] = Inr \<lparr>np_packetVersion = 3, np_packetType = 2, np_resultCode = 0, np_buffer = ''OK - 0.1''\<rparr>"
  using nrpe_answer [OF nrpe_query_decoded, of "''SQ''" "''OK - 0.1''" 0 None "''1''" "\<lambda>_. (''OK - 0.1'', 0, None)" 0 "''OK - 0.1''"]
  by (simp add: sendable_def received_def)

text \<open>
  C38 (a request that arrives in two segments is refused). The same valid request is answered when it arrives in one
  segment and refused when its head is cut, since \<open>Read\<close> is called once and its count is ignored.
\<close>

theorem nrpe_segmented_request:
  "(\<exists>q. nrpe_decode [nrpe_query] = Inr q) \<and>
   nrpe_decode [take 8 nrpe_query, drop 8 nrpe_query] = Inl ErrWrongValue"
proof
  show "\<exists>q. nrpe_decode [nrpe_query] = Inr q" using nrpe_query_decoded by blast
  have crc: "ChecksumIEEE (packet 3 1 0 0 (zeros 2 @ be_bytes 4 4 @ ''load'' @ zeros 3)) = 257366287"
    by (simp add: crc_eval packet_def numeral_eq_Suc)
  have cut: "take 8 nrpe_query = take 8 (packet 3 1 257366287 0 (zeros 6))"
    "drop 8 nrpe_query = zeros 3 @ zeros 1 @ be_bytes 4 4 @ ''load'' @ zeros 3"
    unfolding nrpe_query_def sealed_def crc by code_simp+
  have 1: "read_into 16 [take 8 nrpe_query, drop 8 nrpe_query] = Some (packet 3 1 257366287 0 (zeros 6), [drop 8 nrpe_query])"
    unfolding cut by code_simp
  have 2: "read_into 3 [drop 8 nrpe_query] = Some (zeros 3, [drop 3 (drop 8 nrpe_query)])"
    unfolding cut by code_simp
  have hd: "decode_head (packet 3 1 257366287 0 (zeros 6)) =
      (\<lparr>np_packetVersion = 3, np_packetType = 1, np_resultCode = 0, np_buffer = []\<rparr>, 257366287, 0)"
    by code_simp
  have "ChecksumIEEE (take 4 (packet 3 1 257366287 0 (zeros 6)) @ zeros 4 @ drop 8 (packet 3 1 257366287 0 (zeros 6)) @ zeros 3) = 2665907612"
    by (simp add: crc_eval packet_def numeral_eq_Suc)
  then show "nrpe_decode [take 8 nrpe_query, drop 8 nrpe_query] = Inl ErrWrongValue"
    unfolding nrpe_decode_def 1 by (simp add: hd 2 maxBufferLength_def)
qed

end
