(* ===== verification/NrpeResponder.thy ===== *)
theory NrpeResponder
  imports NrpeServer Types
begin

text \<open>
  The answers of the NRPE server (\<^verbatim>\<open>nrpe/responder.go\<close>): the reader of the configuration files, the substitution of
  arguments and the choice of the check or command to run. The checks of the discovered services, the execution
  of commands and the \<open>shlex\<close> package are arguments.
\<close>

section \<open>Strings\<close>

text \<open>\<^verbatim>\<open>strings.Split\<close> at one byte.\<close>

fun split_on :: "char \<Rightarrow> string \<Rightarrow> string list" where
  "split_on c [] = [[]]"
| "split_on c (x # s) = 
     (if x = c then [] # split_on c s
      else case split_on c s of [] \<Rightarrow> [[x]] | w # ws \<Rightarrow> (x # w) # ws)"

fun strip_prefix :: "string \<Rightarrow> string \<Rightarrow> string option" where
  "strip_prefix [] s = Some s"
| "strip_prefix (p # ps) [] = None"
| "strip_prefix (p # ps) (x # s) = (if p = x then strip_prefix ps s else None)"

lemma strip_prefix_length: "strip_prefix p s = Some r \<Longrightarrow> length s = length p + length r"
  by (induction p s rule: strip_prefix.induct) (auto split: if_splits)

text \<open>\<^verbatim>\<open>strings.ReplaceAll\<close> and \<^verbatim>\<open>strings.Replace\<close> with a count of one, for a text to replace that is not empty.\<close>

function replace_all :: "string \<Rightarrow> string \<Rightarrow> string \<Rightarrow> string" where
  "replace_all old new [] = []"
| "replace_all old new (x # s) =
     (case strip_prefix old (x # s) of
        Some rest \<Rightarrow> if old = [] then x # s else new @ replace_all old new rest
      | None \<Rightarrow> x # replace_all old new s)"
  by pat_completeness auto
termination
  by (relation "measure (\<lambda>(old, new, s). length s)") (auto dest!: strip_prefix_length simp: less_Suc_eq_le neq_Nil_conv)

fun replace_first :: "string \<Rightarrow> string \<Rightarrow> string \<Rightarrow> string" where
  "replace_first old new [] = []"
| "replace_first old new (x # s) =
     (case strip_prefix old (x # s) of Some rest \<Rightarrow> new @ rest | None \<Rightarrow> x # replace_first old new s)"

text \<open>\<^verbatim>\<open>strconv.Atoi\<close> of digits, whose error is ignored: the largest \<^verbatim>\<open>int\<close> when the number is too large.\<close>

definition is_digit :: "char \<Rightarrow> bool" where
  "is_digit c \<longleftrightarrow> (48 :: nat) \<le> of_char c \<and> (of_char c :: nat) \<le> 57"

definition atoi :: "string \<Rightarrow> int" where
  "atoi s = min (2 ^ 63 - 1) (foldl (\<lambda>n c. 10 * n + (of_char c - 48)) 0 s)"

text \<open>A match of the expression for \<^verbatim>\<open>$ARG1$\<close> at the start of a text: the match, its digits and the rest.\<close>

definition match_arg :: "string \<Rightarrow> (string \<times> string \<times> string) option" where
  "match_arg s =
     (case strip_prefix ''$ARG'' s of
        None \<Rightarrow> None
      | Some r \<Rightarrow>
          let digits = takeWhile is_digit r
          in if digits = [] then None
             else case dropWhile is_digit r of
                    c # rest \<Rightarrow> if c = CHR ''$'' then Some (''$ARG'' @ digits @ ''$'', digits, rest) else None
                  | [] \<Rightarrow> None)"

lemma match_arg_length: "match_arg s = Some (m, d, r) \<Longrightarrow> length r < length s"
proof -
  assume a: "match_arg s = Some (m, d, r)"
  then obtain t where t: "strip_prefix ''$ARG'' s = Some t" by (auto simp: match_arg_def split: option.splits)
  then have "\<exists>c. dropWhile is_digit t = c # r"
    using a by (auto simp: match_arg_def Let_def split: if_splits list.splits)
  then have "length r < length t" using length_dropWhile_le [of is_digit t] by auto
  then show ?thesis using strip_prefix_length [OF t] by simp
qed

function find_args :: "string \<Rightarrow> (string \<times> string) list" where
  "find_args s =
     (case s of
        [] \<Rightarrow> []
      | x # s' \<Rightarrow> (case match_arg s of Some (m, d, rest) \<Rightarrow> (m, d) # find_args rest | None \<Rightarrow> find_args s'))"
  by pat_completeness auto
termination
  by (relation "measure length") (auto dest: match_arg_length)

declare find_args.simps [simp del]

section \<open>Configuration files\<close>

fun has_close :: "string \<Rightarrow> bool" where
  "has_close [] = False"
| "has_close (c # s) =
     (c = CHR '']'' \<and> (case dropWhile (\<lambda>x. x = CHR '' '') s of d # _ \<Rightarrow> d = CHR ''='' | [] \<Rightarrow> False) \<or> has_close s)"

definition is_command_line :: "string \<Rightarrow> bool" where
  "is_command_line line =
     (case strip_prefix ''command['' line of Some (_ # rest) \<Rightarrow> has_close rest | _ \<Rightarrow> False)"

definition trim_right :: "string \<Rightarrow> string" where
  "trim_right s = rev (dropWhile (\<lambda>x. x = CHR '' '') (rev s))"

definition before :: "char \<Rightarrow> string \<Rightarrow> string" where
  "before c s = takeWhile (\<lambda>x. x \<noteq> c) s"

definition after :: "char \<Rightarrow> string \<Rightarrow> string" where
  "after c s = drop 1 (dropWhile (\<lambda>x. x \<noteq> c) s)"

definition read_line :: "string \<Rightarrow> (string, string) gomap \<times> bool \<Rightarrow> (string, string) gomap \<times> bool" where
  "read_line line = (\<lambda>(nrpeConfMap, confCommandArguments).
     if is_command_line line
     then let command = trim_right (after (CHR ''='') line);
              commandName = before (CHR '']'') (split_on (CHR ''['') (before (CHR ''='') line) ! 1)
          in (gm_set commandName command nrpeConfMap, confCommandArguments)
     else case strip_prefix ''dont_blame_nrpe='' line of
            None \<Rightarrow> (nrpeConfMap, confCommandArguments)
          | Some r \<Rightarrow>
              let splitLine = dropWhile (\<lambda>x. x = CHR '' '') r
              in (nrpeConfMap, if splitLine = ''0'' then False else if splitLine = ''1'' then True else confCommandArguments))"

definition readNRPEConfFile :: "string \<Rightarrow> (string, string) gomap \<Rightarrow> (string, string) gomap \<times> bool" where
  "readNRPEConfFile confBytes nrpeConfMap = fold read_line (split_on (CHR 0x0A) confBytes) (nrpeConfMap, False)"

text \<open>The contents of the configuration files in order, \<open>None\<close> for one that cannot be read.\<close>

definition readNRPEConf :: "string option list \<Rightarrow> (string, string) gomap \<times> bool" where
  "readNRPEConf nrpeConfPath =
     fold (\<lambda>f (nrpeConfMap, allowArguments).
       case f of None \<Rightarrow> (nrpeConfMap, allowArguments) | Some confBytes \<Rightarrow> readNRPEConfFile confBytes nrpeConfMap)
     nrpeConfPath ([], False)"

section \<open>Answers\<close>

type_synonym name_instance = "string \<times> string"

record Responder =
  re_customCheck :: "(string, name_instance) gomap"
  re_nrpeCommands :: "(string, string) gomap"
  re_allowArguments :: bool

text \<open>A service of the configuration: its name for NRPE, its type and its instance.\<close>

definition NewResponse :: "(string \<times> string \<times> string) list \<Rightarrow> string option list \<Rightarrow> Responder" where
  "NewResponse services nrpeConfPath =
     (let customChecks = fold (\<lambda>(n, ty, inst) m. if n = [] then m else gm_set n (ty, inst) m) services [];
          (nrpeCommands, allowArguments) = readNRPEConf nrpeConfPath
      in \<lparr>re_customCheck = customChecks, re_nrpeCommands = nrpeCommands, re_allowArguments = allowArguments\<rparr>)"

datatype check_error = NoError | TemporarySkip | CheckError string

datatype run_outcome = RunOk string | RunExit int string | RunFailed

text \<open>What the responder calls: the check of a service, if it has one; the words of a command line; a command.\<close>

record responder_env =
  ev_GetCheckNow :: "name_instance \<Rightarrow> (StatusDescription \<times> check_error) option"
  ev_Split :: "string \<Rightarrow> string list option"
  ev_Run :: "string list \<Rightarrow> run_outcome"

definition responseCustomCheck :: "responder_env \<Rightarrow> Responder \<Rightarrow> string \<Rightarrow> string \<times> int \<times> string option" where
  "responseCustomCheck V r request =
     (case ev_GetCheckNow V (gm_get_or ([], []) (re_customCheck r) request) of
        None \<Rightarrow> ([], 0, Some (''NRPE: Command '' @ [CHR 0x27] @ request @ [CHR 0x27] @ '' exists but does not have an associated check''))
      | Some (statusDescription, err) \<Rightarrow>
          (case err of
             CheckError e \<Rightarrow> ([], 0, Some (''NRPE: Command '' @ [CHR 0x27] @ request @ [CHR 0x27] @ '' had error during execution: '' @ e))
           | _ \<Rightarrow> (sd_StatusDescription statusDescription, NagiosCode (sd_CurrentStatus statusDescription), None)))"

definition returnCommand :: "responder_env \<Rightarrow> Responder \<Rightarrow> string list \<Rightarrow> string list option" where
  "returnCommand V r requestArgs =
     (let nrpeCommand = gm_get_or [] (re_nrpeCommands r) (requestArgs ! 0)
      in ev_Split V (fold (\<lambda>(m, digits) cmd.
           if atoi digits < int (length requestArgs) \<and> re_allowArguments r
           then replace_all m (requestArgs ! nat (atoi digits)) cmd
           else replace_first m [] cmd) (find_args nrpeCommand) nrpeCommand))"

definition trim_newline :: "string \<Rightarrow> string" where
  "trim_newline s = (if s \<noteq> [] \<and> last s = CHR 0x0A then butlast s else s)"

definition errUnreadable :: string where
  "errUnreadable = ''NRPE: Unable to read output''"

definition errContainsEmptyCommand :: string where
  "errContainsEmptyCommand = ''NRPE: config file contains an empty command''"

definition responseNRPEConf :: "responder_env \<Rightarrow> Responder \<Rightarrow> string list \<Rightarrow> string \<times> int \<times> string option" where
  "responseNRPEConf V r requestArgs =
     (case returnCommand V r requestArgs of
        None \<Rightarrow> ([], 0, Some errUnreadable)
      | Some [] \<Rightarrow> ([], 0, Some errContainsEmptyCommand)
      | Some nrpeCommand \<Rightarrow>
          (case ev_Run V nrpeCommand of
             RunOk out \<Rightarrow> (trim_newline out, 0, None)
           | RunExit nagiosCode out \<Rightarrow> (trim_newline out, signed 16 nagiosCode, None)
           | RunFailed \<Rightarrow> ([], 0, Some errUnreadable)))"

definition Response :: "responder_env \<Rightarrow> Responder \<Rightarrow> string \<Rightarrow> string \<times> int \<times> string option" where
  "Response V r request =
     (let requestArgs = split_on (CHR ''!'') request
      in if gm_mem (requestArgs ! 0) (re_customCheck r) then responseCustomCheck V r (requestArgs ! 0)
         else if gm_mem (requestArgs ! 0) (re_nrpeCommands r) then responseNRPEConf V r requestArgs
         else ([], 0, Some (''NRPE: Command '' @ [CHR 0x27] @ requestArgs ! 0 @ [CHR 0x27] @ '' not defined'')))"

section \<open>Properties\<close>

lemma split_on_plain: "c \<notin> set s \<Longrightarrow> split_on c s = [s]"
  by (induction s) auto

lemma split_on_append: "c \<notin> set s \<Longrightarrow> split_on c (s @ c # t) = s # split_on c t"
  by (induction s) auto

lemma split_on_not_Nil [simp]: "split_on c s \<noteq> []"
  by (induction s) (auto split: list.splits)

text \<open>Without arguments, the command line depends on the name of the command only.\<close>

lemma returnCommand_no_arguments:
  "\<not> re_allowArguments r \<Longrightarrow> a \<noteq> [] \<Longrightarrow> b \<noteq> [] \<Longrightarrow> a ! 0 = b ! 0 \<Longrightarrow> returnCommand V r a = returnCommand V r b"
  by (simp add: returnCommand_def)

text \<open>
  C16 (arguments of the network are ignored unless they are allowed). When the last configuration file does not allow
  arguments, what a client adds to the name of a command has no influence on what is executed or answered.
\<close>

theorem nrpe_arguments_ignored:
  assumes "\<not> re_allowArguments r" "CHR ''!'' \<notin> set command"
  shows "Response V r (command @ ''!'' @ arguments) = Response V r command"
proof -
  have "returnCommand V r (command # split_on (CHR ''!'') arguments) = returnCommand V r [command]"
    by (rule returnCommand_no_arguments) (simp_all add: assms(1))
  then show ?thesis
    using split_on_append [OF assms(2), of arguments] split_on_plain [OF assms(2)]
    by (simp add: Response_def responseNRPEConf_def Let_def)
qed

definition demo_env :: responder_env where
  "demo_env = \<lparr>ev_GetCheckNow = \<lambda>_. None, ev_Split = \<lambda>s. Some (split_on (CHR '' '') s), ev_Run = \<lambda>args. RunOk (concat args)\<rparr>"

definition demo_conf :: string where
  "demo_conf = ''command[load]=/usr/bin/load $ARG1$''"

theorem nrpe_arguments_ignored_witness:
  "Response demo_env (NewResponse [] [Some demo_conf]) (''load'' @ ''!'' @ ''-w 5'') =
   Response demo_env (NewResponse [] [Some demo_conf]) ''load''"
proof (rule nrpe_arguments_ignored)
  show "\<not> re_allowArguments (NewResponse [] [Some demo_conf])" by code_simp
qed simp

text \<open>The example does run its command.\<close>

lemma demo_response: "Response demo_env (NewResponse [] [Some demo_conf]) ''load'' = (''/usr/bin/load'', 0, None)"
  by code_simp

text \<open>
  Only the last file decides about arguments. Whether arguments are allowed is what the last readable file says,
  and no when it says nothing, whatever the earlier files say.
\<close>

theorem nrpe_last_file_decides:
  "snd (readNRPEConf (files @ [Some f])) = snd (readNRPEConfFile f [])"
proof -
  have line: "snd (read_line l (m, a)) = snd (read_line l (m', a))" for l m m' a
    by (simp add: read_line_def Let_def split: option.split)
  have whole: "snd (fold read_line ls (m, a)) = snd (fold read_line ls (m', a))" for ls m m' a
  proof (induction ls arbitrary: m m' a)
    case (Cons l ls)
    obtain m1 a1 m2 a2 where "read_line l (m, a) = (m1, a1)" "read_line l (m', a) = (m2, a2)" by fastforce
    then show ?case using Cons [of m1 a1 m2] line [of l m a m'] by simp
  qed simp
  obtain m a where "readNRPEConf files = (m, a)" by fastforce
  then have "readNRPEConf (files @ [Some f]) = readNRPEConfFile f m" by (simp add: readNRPEConf_def)
  then show ?thesis using whole [of "split_on (CHR 0x0A) f" m False "[]"] by (simp only: readNRPEConfFile_def)
qed





end
