(* ===== verification/Zabbix.thy ===== *)
theory Zabbix
  imports Wire "HOL-Library.Monad_Syntax"
begin

text \<open>
  The Zabbix agent server (\<^verbatim>\<open>zabbix/zabbix.go\<close>): the packets, the parser of the requested item with its arguments,
  and the handler of a connection. A run-time panic of Go, such as a slice out of its bounds, is the value
  \<open>None\<close>. The listener is not modelled.
\<close>

section \<open>The parser of a request\<close>

datatype zbx_error = ErrUnmatchedOpeningBracket | ErrUnmatchedClosingBracket | ErrClosingBracketNotAllowed
  | ErrMissingClosingBracket | ErrIllegalBraces | ErrCommaButNotArgs | ErrMultiArrayNotAllowed
  | ErrQuotedParamContainsUnquoted | ErrWrongHeader | ErrInvalidDataLength | ZbxReadError

abbreviation (input) quote :: char where
  "quote \<equiv> CHR 0x22"

definition slice :: "int \<Rightarrow> int \<Rightarrow> string \<Rightarrow> string option" where
  "slice i j s =
     (if 0 \<le> i \<and> i \<le> j \<and> j \<le> int (length s) then Some (take (nat (j - i)) (drop (nat i) s)) else None)"

definition at_index :: "int \<Rightarrow> string \<Rightarrow> char option" where
  "at_index i s = (if 0 \<le> i \<and> i < int (length s) then Some (s ! nat i) else None)"

fun last_index :: "char \<Rightarrow> string \<Rightarrow> int" where
  "last_index c [] = - 1"
| "last_index c (x # s) = (if c \<in> set s then last_index c s + 1 else if x = c then 0 else - 1)"

text \<open>
  The variables of the loop: the arguments so far, the start of the current one, and whether it is an array. A step
  either goes on or returns an error from the function, with the arguments so far.
\<close>

type_synonym split_state = "string list \<times> int \<times> bool"

definition in_brackets :: "string \<Rightarrow> int \<Rightarrow> char \<Rightarrow> string list \<Rightarrow> int \<Rightarrow> ((string list \<times> zbx_error) + split_state) option" where
  "in_brackets joinArgs k s args j =
     do {
       nested \<leftarrow> (if s = CHR ''['' then do { t \<leftarrow> slice (k - 1) (k + 2) joinArgs; Some (t \<noteq> [quote, CHR ''['', quote]) } else Some False);
       if nested then Some (Inl (args, ErrMultiArrayNotAllowed))
       else if s = CHR '']'' \<and> k = int (length joinArgs) - 1
       then do {
         t \<leftarrow> slice j k joinArgs;
         Some (if quote \<in> set t \<and> last_index quote t \<noteq> k - j - 1 then Inl (args, ErrQuotedParamContainsUnquoted)
               else Inr (args @ [t], k + 1, False))
       }
       else do {
         closing \<leftarrow> (if s = CHR '']'' then do { c \<leftarrow> at_index (k + 1) joinArgs; Some (c = CHR '']'') } else Some False);
         if closing then Some (Inl (args, ErrUnmatchedClosingBracket))
         else do {
           t \<leftarrow> slice (k - 1) (k + 1) joinArgs;
           if t = ''],'' then do { a \<leftarrow> slice j (k - 1) joinArgs; Some (Inr (args @ [a], k + 1, False)) }
           else Some (Inr (args, j, True))
         }
       }
     }"

definition out_of_brackets :: "string \<Rightarrow> int \<Rightarrow> char \<Rightarrow> string list \<Rightarrow> int \<Rightarrow> ((string list \<times> zbx_error) + split_state) option" where
  "out_of_brackets joinArgs k s args j =
     (if s = CHR ''['' \<and> j = k then Some (Inr (args, k + 1, True))
      else if s = CHR '',''
      then do {
        t \<leftarrow> slice j k joinArgs;
        if quote \<in> set t
        then if last_index quote t \<noteq> k - j - 1 then Some (Inl (args, ErrQuotedParamContainsUnquoted))
             else do {
               c \<leftarrow> at_index j joinArgs;
               if c = quote
               then do { a \<leftarrow> slice (j + 1) (k - 1) joinArgs; Some (Inr (args @ [filter (\<lambda>x. x \<noteq> CHR 0x5C) a], k + 1, False)) }
               else Some (Inr (args @ [t], k + 1, False))
             }
        else Some (Inr (args @ [t], k + 1, False))
      }
      else if s = CHR '']'' then Some (Inl (args, ErrClosingBracketNotAllowed))
      else Some (Inr (args, j, False)))"

fun split_loop :: "string \<Rightarrow> string \<Rightarrow> int \<Rightarrow> split_state \<Rightarrow> ((string list \<times> zbx_error) + split_state) option" where
  "split_loop joinArgs [] k st = Some (Inr st)"
| "split_loop joinArgs (s # rest) k (args, j, inBrackets) =
     do {
       r \<leftarrow> (if inBrackets then in_brackets joinArgs k s args j else out_of_brackets joinArgs k s args j);
       case r of Inl e \<Rightarrow> Some (Inl e) | Inr st \<Rightarrow> split_loop joinArgs rest (k + 1) st
     }"

definition split_end :: "string \<Rightarrow> split_state \<Rightarrow> (string list \<times> zbx_error option) option" where
  "split_end joinArgs = (\<lambda>(args, j, inBrackets).
     if inBrackets then Some (args, Some ErrUnmatchedOpeningBracket)
     else if j = int (length joinArgs)
     then do {
       c \<leftarrow> at_index (int (length joinArgs) - 1) joinArgs;
       Some (if c = CHR '','' then args @ [[]] else args, None)
     }
     else do {
       t \<leftarrow> slice j (int (length joinArgs)) joinArgs;
       if quote \<in> set t
       then if last_index quote joinArgs \<noteq> int (length joinArgs) - 1 then Some (args, Some ErrQuotedParamContainsUnquoted)
            else do {
              c \<leftarrow> at_index j joinArgs;
              if c = quote then do { a \<leftarrow> slice (j + 1) (int (length joinArgs) - 1) joinArgs; Some (args @ [a], None) }
              else Some (args @ [t], None)
            }
       else Some (args @ [t], None)
     })"

definition splitData :: "string \<Rightarrow> (string \<times> string list \<times> zbx_error option) option" where
  "splitData request =
     (if CHR 0x7B \<in> set request \<or> CHR 0x7D \<in> set request then Some (request, [], Some ErrIllegalBraces)
      else case index_byte (CHR ''['') request of
        None \<Rightarrow> Some (request, [], if CHR '','' \<in> set request then Some ErrCommaButNotArgs else None)
      | Some i \<Rightarrow>
          let newrequest = filter (\<lambda>x. x \<noteq> CHR '' '') request; n = int (length newrequest)
          in do {
            key \<leftarrow> slice 0 (int i) newrequest;
            c \<leftarrow> at_index (n - 1) newrequest;
            if c \<noteq> CHR '']'' then Some (key, [], Some ErrMissingClosingBracket)
            else do {
              joinArgs \<leftarrow> slice (int i + 1) (n - 1) newrequest;
              if joinArgs = [] then Some (key, [[]], None)
              else do {
                r \<leftarrow> split_loop joinArgs joinArgs 0 ([], 0, False);
                case r of
                  Inl (args, err) \<Rightarrow> Some (key, args, Some err)
                | Inr st \<Rightarrow> map_option (\<lambda>(args, err). (key, args, err)) (split_end joinArgs st)
              }
            }
          })"

section \<open>Packets and connections\<close>

definition maxDataLength :: int where
  "maxDataLength = 64 * 1024"

record packetStruct =
  zp_version :: int
  zp_key :: string
  zp_args :: "string list"

definition zbx_decode :: "connection \<Rightarrow> (zbx_error + packetStruct) option" where
  "zbx_decode r =
     (case read_into 13 r of
        None \<Rightarrow> Some (Inl ZbxReadError)
      | Some (packetHead, r) \<Rightarrow>
          if take 4 packetHead \<noteq> ''ZBXD'' then Some (Inl ErrWrongHeader)
          else
            let version = signed 8 (le_value (take 1 (drop 4 packetHead)));
                dataLength = signed 64 (le_value (take 8 (drop 5 packetHead)))
            in if dataLength < 0 \<or> maxDataLength < dataLength then Some (Inl ErrInvalidDataLength)
               else case read_into (nat dataLength) r of
                      None \<Rightarrow> Some (Inl ZbxReadError)
                    | Some (packetData, r) \<Rightarrow>
                        map_option (\<lambda>(key, args, err).
                          case err of None \<Rightarrow> Inr \<lparr>zp_version = version, zp_key = key, zp_args = args\<rparr> | Some e \<Rightarrow> Inl e)
                        (splitData packetData))"

definition encodeReply :: "string \<Rightarrow> string option \<Rightarrow> string" where
  "encodeReply message inputError =
     (let message = (case inputError of None \<Rightarrow> message | Some e \<Rightarrow> ''ZBX_NOTSUPPORTED'' @ [CHR 0x00] @ e @ ''.'');
          dataLength = int (length message);
          encodedPacket = replicate (13 + length message) (CHR 0x00);
          encodedPacket = copy_at 0 4 ''ZBXD'' encodedPacket;
          encodedPacket = encodedPacket[4 := CHR 0x01];
          encodedPacket = copy_at 5 8 (le_bytes 8 dataLength) encodedPacket
      in copy_at 13 (length message) message encodedPacket)"

text \<open>What is written before the connection is closed, if anything; \<open>cb\<close> gives the answer and possibly an error.\<close>

definition zbx_handleConnection :: "(string \<Rightarrow> string list \<Rightarrow> string \<times> string option) \<Rightarrow> connection \<Rightarrow> string option option" where
  "zbx_handleConnection cb c =
     map_option (\<lambda>d. case d of
         Inl _ \<Rightarrow> None
       | Inr decodedRequest \<Rightarrow>
           (let (answer, err) = cb (zp_key decodedRequest) (zp_args decodedRequest) in Some (encodeReply answer err)))
       (zbx_decode c)"

section \<open>Plain arguments\<close>

text \<open>A text that needs no quoting, and the arguments of an item joined by commas.\<close>

definition plain :: "string \<Rightarrow> bool" where
  "plain w \<longleftrightarrow> set w \<inter> set [quote, CHR ''['', CHR '']'', CHR '','', CHR '' '', CHR 0x7B, CHR 0x7D] = {}"

fun join_args :: "string list \<Rightarrow> string" where
  "join_args [] = []"
| "join_args [w] = w"
| "join_args (w # v # ws) = w @ CHR '','' # join_args (v # ws)"

lemma slice_append: "slice (int (length pre)) (int (length pre) + int (length w)) (pre @ w @ post) = Some w"
  by (simp add: slice_def)

lemma at_index_last: "xs \<noteq> [] \<Longrightarrow> at_index (int (length xs) - 1) xs = Some (last xs)"
proof -
  assume "xs \<noteq> []"
  moreover have "nat (int (length xs) - 1) = length xs - 1" by arith
  ultimately show ?thesis by (simp add: at_index_def last_conv_nth)
qed

lemma split_loop_plain:
  assumes "plain w"
  shows "split_loop J (w @ rest) k (args, j, False) = split_loop J rest (k + int (length w)) (args, j, False)"
  using assms
proof (induction w arbitrary: k)
  case (Cons x w)
  then have "x \<noteq> CHR ''[''" "x \<noteq> CHR '',''" "x \<noteq> CHR '']''" by (auto simp: plain_def)
  then have "out_of_brackets J k x args j = Some (Inr (args, j, False))" by (simp add: out_of_brackets_def)
  then show ?case using Cons by (simp add: plain_def algebra_simps)
qed simp

lemma split_loop_comma:
  assumes "plain w" "J = pre @ w @ CHR '','' # rest"
  shows "split_loop J (w @ CHR '','' # rest) (int (length pre)) (args, int (length pre), False) =
         split_loop J rest (int (length (pre @ w @ '',''))) (args @ [w], int (length (pre @ w @ '','')), False)"
proof -
  have "out_of_brackets J (int (length pre) + int (length w)) (CHR '','') args (int (length pre)) =
      Some (Inr (args @ [w], int (length pre) + int (length w) + 1, False))"
    using assms slice_append [of pre w "CHR '','' # rest"] by (simp add: out_of_brackets_def plain_def)
  then show ?thesis by (simp add: split_loop_plain [OF assms(1)] algebra_simps)
qed

lemma split_end_last:
  assumes "plain w" "J = pre @ w" "w = [] \<Longrightarrow> pre \<noteq> [] \<and> last pre = CHR '',''"
  shows "split_end J (args, int (length pre), False) = Some (args @ [w], None)"
proof (cases "w = []")
  case True
  then show ?thesis using assms by (simp add: split_end_def at_index_last)
next
  case False
  then show ?thesis using assms slice_append [of pre w "[]"] by (simp add: split_end_def plain_def)
qed

lemma split_args:
  assumes "\<forall>w \<in> set ws. plain w" "ws \<noteq> []" "J = pre @ join_args ws" "pre = [] \<Longrightarrow> join_args ws \<noteq> []"
    "pre \<noteq> [] \<Longrightarrow> last pre = CHR '',''"
  shows "\<exists>st. split_loop J (join_args ws) (int (length pre)) (args, int (length pre), False) = Some (Inr st) \<and>
    split_end J st = Some (args @ ws, None)"
  using assms
proof (induction ws arbitrary: pre args rule: join_args.induct)
  case (2 w)
  then show ?case using split_loop_plain [of w J "[]"] split_end_last [of w J pre args] by auto
next
  case (3 w v ws)
  have "split_loop J (join_args (w # v # ws)) (int (length pre)) (args, int (length pre), False) =
      split_loop J (join_args (v # ws)) (int (length (pre @ w @ '',''))) (args @ [w], int (length (pre @ w @ '','')), False)"
    using split_loop_comma [of w J pre "join_args (v # ws)" args] 3(2,4) by simp
  moreover have "J = (pre @ w @ '','') @ join_args (v # ws)" using 3(4) by simp
  ultimately show ?case using "3.IH" [of "pre @ w @ '',''" "args @ [w]"] 3(2) by simp
qed simp

lemma join_args_plain: "\<forall>w \<in> set ws. plain w \<Longrightarrow> set (join_args ws) \<inter> set [CHR ''['', CHR '']'', CHR '' '', CHR 0x7B, CHR 0x7D] = {}"
  by (induction ws rule: join_args.induct) (auto simp: plain_def)

text \<open>The request for an item.\<close>

definition item :: "string \<Rightarrow> string list \<Rightarrow> string" where
  "item key args = key @ ''['' @ join_args args @ '']''"

lemma filter_True_set: "(\<And>x. x \<in> set xs \<Longrightarrow> P x) \<Longrightarrow> filter P xs = xs"
  by (simp add: filter_id_conv)

lemma splitData_item:
  assumes "set key \<inter> set [CHR ''['', CHR '' '', CHR 0x7B, CHR 0x7D] = {}" "args \<noteq> []" "\<forall>w \<in> set args. plain w"
  shows "splitData (item key args) = Some (key, args, None)"
proof -
  let ?J = "join_args args" and ?r = "item key args"
  note J = join_args_plain [OF assms(3)]
  have braces: "CHR 0x7B \<notin> set ?r" "CHR 0x7D \<notin> set ?r" and spaces: "CHR '' '' \<notin> set ?r"
    using assms(1) J by (auto simp: item_def)
  have f: "filter (\<lambda>x. x \<noteq> CHR '' '') ?r = ?r" using spaces by (intro filter_True_set) metis
  have i: "index_byte (CHR ''['') ?r = Some (length key)"
    using index_byte_append [of "CHR ''[''" key "?J @ '']''"] assms(1) by (simp add: item_def)
  have k: "slice 0 (int (length key)) ?r = Some key" using slice_append [of "[]" key "''['' @ ?J @ '']''"] by (simp add: item_def)
  have c: "at_index (int (length ?r) - 1) ?r = Some (CHR '']'')" using at_index_last [of ?r] by (simp add: item_def)
  have j: "slice (int (length key) + 1) (int (length ?r) - 1) ?r = Some ?J"
    using slice_append [of "key @ ''[''" ?J "'']''"] by (simp add: item_def ac_simps)
  have main: "splitData ?r = (if ?J = [] then Some (key, [[]], None)
      else do { r \<leftarrow> split_loop ?J ?J 0 ([], 0, False);
                case r of Inl (args, err) \<Rightarrow> Some (key, args, Some err)
                | Inr st \<Rightarrow> map_option (\<lambda>(args, err). (key, args, err)) (split_end ?J st) })"
    unfolding splitData_def f i Let_def using braces by (simp add: k c j)
  show ?thesis
  proof (cases "?J = []")
    case True
    then have "args = [[]]" using assms(2) by (cases args rule: join_args.cases) simp_all
    then show ?thesis using main by simp
  next
    case False
    then show ?thesis using main split_args [OF assms(3,2), of ?J "[]" "[]"] by auto
  qed
qed

section \<open>Properties\<close>

text \<open>A packet as a client sends it.\<close>

definition zbx_packet :: "int \<Rightarrow> string \<Rightarrow> string" where
  "zbx_packet version data = ''ZBXD'' @ le_bytes 1 version @ le_bytes 8 (int (length data)) @ data"

lemma zbx_decode_packet:
  assumes "int (length d) \<le> maxDataLength" "d \<noteq> []"
  shows "zbx_decode [zbx_packet v d] =
    map_option (\<lambda>(key, args, err). case err of None \<Rightarrow> Inr \<lparr>zp_version = signed 8 v, zp_key = key, zp_args = args\<rparr> | Some e \<Rightarrow> Inl e) (splitData d)"
proof -
  let ?head = "''ZBXD'' @ le_bytes 1 v @ le_bytes 8 (int (length d))"
  have p: "zbx_packet v d = ?head @ d" and hl: "length ?head = 13" by (simp_all add: zbx_packet_def)
  have r1: "read_into 13 [zbx_packet v d] = Some (?head, [d])"
    using read_into_short [of 13 "zbx_packet v d" "[]"] assms(2) hl unfolding p by simp
  have r2: "read_into (length d) [d] = Some (d, [])" using read_into_exact [of d "length d" "[]"] assms(2) by simp
  have f1: "take 4 ?head = ''ZBXD''" "take 1 (drop 4 ?head) = le_bytes 1 v" "take 8 (drop 5 ?head) = le_bytes 8 (int (length d))"
    by simp_all
  have n: "signed 64 (le_value (le_bytes 8 (int (length d)))) = int (length d)" and ver: "signed 8 (le_value (le_bytes 1 v)) = signed 8 v"
    using assms(1) signed_mod [of 8 v] by (simp_all add: maxDataLength_def signed_id)
  show ?thesis unfolding zbx_decode_def r1 option.case prod.case f1 n ver Let_def using assms(1) by (simp add: r2)
qed

lemma encodeReply_layout:
  "encodeReply m e = ''ZBXD'' @ [CHR 0x01] @
     (let m = (case e of None \<Rightarrow> m | Some x \<Rightarrow> ''ZBX_NOTSUPPORTED'' @ [CHR 0x00] @ x @ ''.'') in le_bytes 8 (int (length m)) @ m)"
proof -
  have z: "replicate (13 + n) (CHR 0x00) = replicate 4 (CHR 0x00) @ [CHR 0x00] @ replicate 8 (CHR 0x00) @ replicate n (CHR 0x00)" for n
    by (simp add: numeral_eq_Suc)
  have "copy_at 13 (length m) m (copy_at 5 8 (le_bytes 8 (int (length m)))
      ((copy_at 0 4 ''ZBXD'' (replicate (13 + length m) (CHR 0x00)))[4 := CHR 0x01])) =
      ''ZBXD'' @ [CHR 0x01] @ le_bytes 8 (int (length m)) @ m" for m
    unfolding z by (simp add: copy_at_def)
  then show ?thesis unfolding encodeReply_def Let_def .
qed

text \<open>
  C8 (an item with plain arguments is answered). A request that arrives in one segment, for an item whose key and
  arguments need no quoting, calls the callback with exactly that key and those arguments, also the empty ones,
  and the client gets the answer, or the text of the error after the marker of an unsupported item, in a
  packet with its length.
\<close>

theorem zabbix_answer:
  assumes "set key \<inter> set [CHR ''['', CHR '' '', CHR 0x7B, CHR 0x7D] = {}" "args \<noteq> []" "\<forall>w \<in> set args. plain w"
    and "int (length (item key args)) \<le> maxDataLength" "cb key args = (answer, err)"
    and "message = (case err of None \<Rightarrow> answer | Some e \<Rightarrow> ''ZBX_NOTSUPPORTED'' @ [CHR 0x00] @ e @ ''.'')"
  shows "zbx_handleConnection cb [zbx_packet v (item key args)] = Some (Some (zbx_packet 1 message))"
proof -
  have "zbx_decode [zbx_packet v (item key args)] = Some (Inr \<lparr>zp_version = signed 8 v, zp_key = key, zp_args = args\<rparr>)"
    using zbx_decode_packet [OF assms(4), of v] splitData_item [OF assms(1-3)] by (simp add: item_def)
  moreover have "le_bytes 1 1 = [CHR 0x01]" by code_simp
  ultimately show ?thesis
    using assms(5,6) by (simp add: zbx_handleConnection_def encodeReply_layout zbx_packet_def Let_def)
qed

theorem zabbix_answer_witness:
  "zbx_handleConnection (\<lambda>k a. (k @ concat a, None)) [zbx_packet 1 (item ''net.if'' [''eth0'', [], ''in''])] =
    Some (Some (zbx_packet 1 ''net.ifeth0in''))"
  by (rule zabbix_answer [of _ _ _ "''net.ifeth0in''" None]) (simp_all add: plain_def item_def maxDataLength_def)

text \<open>
  C22 (a request can crash the agent). Four short requests make \<open>splitData\<close> leave the bounds of a slice: a lone quote
  before a comma, a lone quote as the last argument, an array opened twice at the end, and spaces before
  the opening bracket. The goroutine of the connection re-raises the panic, which ends the agent.
\<close>

theorem zabbix_request_panics:
  "splitData [CHR ''k'', CHR ''['', quote, CHR '','', CHR ''x'', CHR '']''] = None \<and>
   splitData [CHR ''k'', CHR ''['', quote, CHR '']''] = None \<and>
   splitData ''k[[[]'' = None \<and> splitData ''k   []'' = None \<and>
   zbx_handleConnection cb [zbx_packet 1 ''k[[[]''] = None"
proof -
  have 1: "splitData ''k[[[]'' = None" by code_simp
  have 2: "zbx_decode [zbx_packet 1 ''k[[[]''] = None" using zbx_decode_packet [of "''k[[[]''" 1] 1 by (simp add: maxDataLength_def)
  have 3: "splitData [CHR ''k'', CHR ''['', quote, CHR '','', CHR ''x'', CHR '']''] = None" by code_simp
  have 4: "splitData [CHR ''k'', CHR ''['', quote, CHR '']''] = None" by code_simp
  have 5: "splitData ''k   []'' = None" by code_simp
  show ?thesis using 1 2 3 4 5 by (simp add: zbx_handleConnection_def)
qed

end
