(* ===== verification/RingCounter.thy ===== *)
theory RingCounter
  imports Prelude "HOL-Library.Word"
begin

text \<open>
  The counter over a sliding window (\<^verbatim>\<open>otel/logsource/ringcounter.go\<close>). The clock is an argument, in seconds. The counts
  are Go's \<^verbatim>\<open>int\<close>, words of 64 bits. The seconds and the indexes are unbounded numbers: the seconds of a clock are far below
  \<open>2 ^ 62\<close>, and the differences and indexes made from them do not wrap around. A run-time panic or a recursion
  without end is the value \<open>None\<close>.
\<close>

type_synonym count = "64 word"

record RingCounter =
  rc_size :: int
  rc_t0 :: int
  rc_buckets :: "count list"
  rc_lastUpdateAt :: int

definition NewRingCounter :: "int \<Rightarrow> RingCounter option" where
  "NewRingCounter sz =
     (if sz < 1 then None
      else Some \<lparr>rc_size = sz, rc_t0 = 0, rc_buckets = replicate (nat sz) 0, rc_lastUpdateAt = 0\<rparr>)"

text \<open>Go's remainder has the sign of the dividend.\<close>

definition go_rem :: "int \<Rightarrow> int \<Rightarrow> int" where
  "go_rem a b = (if a < 0 then - ((- a) mod b) else a mod b)"

text \<open>\<^verbatim>\<open>rc.buckets[i] = v\<close>, with the panic out of range.\<close>

definition set_bucket :: "int \<Rightarrow> count \<Rightarrow> RingCounter \<Rightarrow> RingCounter option" where
  "set_bucket i v rc =
     (if 0 \<le> i \<and> i < int (length (rc_buckets rc)) then Some (rc\<lparr>rc_buckets := (rc_buckets rc)[nat i := v]\<rparr>) else None)"

text \<open>The loop of \<open>resetRange\<close>, with the number of iterations left.\<close>

fun reset_loop :: "nat \<Rightarrow> int \<Rightarrow> RingCounter \<Rightarrow> RingCounter option" where
  "reset_loop 0 i rc = Some rc"
| "reset_loop (Suc n) i rc = Option.bind (set_bucket i 0 rc) (reset_loop n (i + 1))"

partial_function (option) resetRange :: "int \<Rightarrow> int \<Rightarrow> RingCounter \<Rightarrow> RingCounter option" where
  "resetRange from to rc =
     (if to < from then Option.bind (resetRange from (rc_size rc - 1) rc) (\<lambda>rc. resetRange 0 to rc)
      else reset_loop (nat (to - from + 1)) from rc)"

definition rebaseIfClockWentBackwards :: "int \<Rightarrow> RingCounter \<Rightarrow> RingCounter option" where
  "rebaseIfClockWentBackwards now rc =
     (if rc_t0 rc \<noteq> 0 \<and> now < rc_t0 rc
      then map_option (\<lambda>rc. rc\<lparr>rc_t0 := now, rc_lastUpdateAt := now\<rparr>) (resetRange 0 (rc_size rc - 1) rc)
      else Some rc)"

definition discardOutdatedValues :: "int \<Rightarrow> RingCounter \<Rightarrow> RingCounter option" where
  "discardOutdatedValues now rc =
     (if now \<le> rc_lastUpdateAt rc then Some rc
      else
        let idx = go_rem (now - rc_t0 rc) (rc_size rc); lastIdx = go_rem (rc_lastUpdateAt rc - rc_t0 rc) (rc_size rc)
        in map_option (\<lambda>rc. rc\<lparr>rc_lastUpdateAt := now\<rparr>)
             (if rc_size rc \<le> now - rc_lastUpdateAt rc then resetRange 0 (rc_size rc - 1) rc
              else if idx \<noteq> lastIdx then resetRange (go_rem (lastIdx + 1) (rc_size rc)) idx rc
              else Some rc))"

definition Add :: "int \<Rightarrow> count \<Rightarrow> RingCounter \<Rightarrow> RingCounter option" where
  "Add now delta rc =
     (let rc = (if rc_t0 rc = 0 then rc\<lparr>rc_t0 := now, rc_lastUpdateAt := now\<rparr> else rc)
      in Option.bind (rebaseIfClockWentBackwards now rc) (\<lambda>rc.
         Option.bind (discardOutdatedValues now rc) (\<lambda>rc.
           let idx = go_rem (now - rc_t0 rc) (rc_size rc)
           in set_bucket idx (rc_buckets rc ! nat idx + delta) rc)))"

definition Total :: "int \<Rightarrow> RingCounter \<Rightarrow> (count \<times> RingCounter) option" where
  "Total now rc =
     Option.bind (rebaseIfClockWentBackwards now rc) (\<lambda>rc.
       map_option (\<lambda>rc. (sum_list (rc_buckets rc), rc)) (discardOutdatedValues now rc))"

text \<open>The calls made on a counter.\<close>

datatype rc_op = OpAdd int count | OpTotal int

fun op_time :: "rc_op \<Rightarrow> int" where
  "op_time (OpAdd now _) = now"
| "op_time (OpTotal now) = now"

fun rc_step :: "rc_op \<Rightarrow> RingCounter \<Rightarrow> RingCounter option" where
  "rc_step (OpAdd now delta) rc = Add now delta rc"
| "rc_step (OpTotal now) rc = map_option snd (Total now rc)"

fun rc_run :: "rc_op list \<Rightarrow> RingCounter \<Rightarrow> RingCounter option" where
  "rc_run [] rc = Some rc"
| "rc_run (c # cs) rc = Option.bind (rc_step c rc) (rc_run cs)"

section \<open>Resetting a range of buckets\<close>

definition in_range :: "int \<Rightarrow> int \<Rightarrow> int \<Rightarrow> bool" where
  "in_range from to p \<longleftrightarrow> (if to < from then from \<le> p \<or> p \<le> to else from \<le> p \<and> p \<le> to)"

definition rc_shape :: "RingCounter \<Rightarrow> bool" where
  "rc_shape rc \<longleftrightarrow> 1 \<le> rc_size rc \<and> int (length (rc_buckets rc)) = rc_size rc \<and> rc_t0 rc \<le> rc_lastUpdateAt rc"

lemma reset_loop_Some:
  assumes "0 \<le> i" "i + int n \<le> int (length (rc_buckets rc))"
  shows "\<exists>b. reset_loop n i rc = Some (rc\<lparr>rc_buckets := b\<rparr>) \<and> length b = length (rc_buckets rc) \<and>
    (\<forall>p < length b. b ! p = (if i \<le> int p \<and> int p < i + int n then 0 else rc_buckets rc ! p))"
  using assms
proof (induction n arbitrary: i rc)
  case 0
  have "rc = rc\<lparr>rc_buckets := rc_buckets rc\<rparr>" by simp
  then show ?case by (intro exI [of _ "rc_buckets rc"]) auto
next
  case (Suc n)
  let ?rc = "rc\<lparr>rc_buckets := (rc_buckets rc)[nat i := 0]\<rparr>"
  have s: "set_bucket i 0 rc = Some ?rc" using Suc.prems by (simp add: set_bucket_def)
  obtain b where b: "reset_loop n (i + 1) ?rc = Some (?rc\<lparr>rc_buckets := b\<rparr>)" "length b = length (rc_buckets rc)"
    "\<forall>p < length b. b ! p = (if i + 1 \<le> int p \<and> int p < i + 1 + int n then 0 else (rc_buckets rc)[nat i := 0] ! p)"
    using Suc.IH [of "i + 1" ?rc] Suc.prems by auto
  then show ?case using s Suc.prems(1) by (intro exI [of _ b]) (auto simp: nth_list_update)
qed

lemma resetRange_forward:
  assumes "0 \<le> from" "from \<le> to" "to < int (length (rc_buckets rc))"
  shows "\<exists>b. resetRange from to rc = Some (rc\<lparr>rc_buckets := b\<rparr>) \<and> length b = length (rc_buckets rc) \<and>
    (\<forall>p < length b. b ! p = (if from \<le> int p \<and> int p \<le> to then 0 else rc_buckets rc ! p))"
  using reset_loop_Some [of "from" "nat (to - from + 1)" rc] assms by (auto simp: resetRange.simps [of "from" to])

lemma resetRange_Some:
  assumes "rc_shape rc" "0 \<le> from" "from < rc_size rc" "0 \<le> to" "to < rc_size rc"
  shows "\<exists>b. resetRange from to rc = Some (rc\<lparr>rc_buckets := b\<rparr>) \<and> length b = length (rc_buckets rc) \<and>
    (\<forall>p < length b. b ! p = (if in_range from to (int p) then 0 else rc_buckets rc ! p))"
proof (cases "to < from")
  case True
  have n: "int (length (rc_buckets rc)) = rc_size rc" using assms(1) by (simp add: rc_shape_def)
  obtain b where b: "resetRange from (rc_size rc - 1) rc = Some (rc\<lparr>rc_buckets := b\<rparr>)" "length b = length (rc_buckets rc)"
    "\<forall>p < length b. b ! p = (if from \<le> int p \<and> int p \<le> rc_size rc - 1 then 0 else rc_buckets rc ! p)"
    using resetRange_forward [of "from" "rc_size rc - 1" rc] assms n by auto
  obtain c where c: "resetRange 0 to (rc\<lparr>rc_buckets := b\<rparr>) = Some (rc\<lparr>rc_buckets := c\<rparr>)" "length c = length b"
    "\<forall>p < length c. c ! p = (if int p \<le> to then 0 else b ! p)"
    using resetRange_forward [of 0 to "rc\<lparr>rc_buckets := b\<rparr>"] assms(4,5) n b(2) by auto
  have "resetRange from to rc = Some (rc\<lparr>rc_buckets := c\<rparr>)"
    using True b(1) c(1) by (subst resetRange.simps) simp
  moreover have "c ! p = (if in_range from to (int p) then 0 else rc_buckets rc ! p)" if "p < length c" for p
  proof -
    have "int p < rc_size rc" using that b(2) c(2) n by linarith
    then show ?thesis using b c(2,3) that True by (simp add: in_range_def)
  qed
  ultimately show ?thesis using b(2) c(2) by auto
next
  case False
  then show ?thesis using resetRange_forward [of "from" to rc] assms by (auto simp: rc_shape_def in_range_def)
qed

section \<open>Discarding what left the window\<close>

lemma mod_shift:
  fixes n :: int
  assumes "0 \<le> l" "l < n" "0 \<le> e" "e \<le> n" "l = L mod n"
  shows "(L + e) mod n = (if l + e < n then l + e else l + e - n)"
proof -
  have "(L + e) mod n = (l + e) mod n" by (simp add: assms(5) mod_add_left_eq)
  also have "\<dots> = (if l + e < n then l + e else l + e - n)"
    using assms(1-4) mod_pos_pos_trivial [of "l + e - n" n] minus_mod_self2 [of "l + e" n] by auto
  finally show ?thesis .
qed

lemma ring_range:
  fixes n :: int
  assumes "0 < d" "d < n" "0 \<le> p" "p < n"
  shows "in_range ((L mod n + 1) mod n) ((L + d) mod n) p \<longleftrightarrow> (\<exists>x. L < x \<and> x \<le> L + d \<and> p = x mod n)"
proof -
  define l where "l = L mod n"
  have n: "0 < n" using assms by linarith
  have l: "0 \<le> l" "l < n" using n by (simp_all add: l_def)
  have to: "(L + d) mod n = (if l + d < n then l + d else l + d - n)" using mod_shift [of l n d L] l assms by (simp add: l_def)
  have fr: "(l + 1) mod n = (if l + 1 < n then l + 1 else 0)"   proof (cases "l + 1 < n")
    case False
    then have "l + 1 = n" using l by linarith
    then show ?thesis by simp
  qed (use l in simp)
  have ex: "(\<exists>x. L < x \<and> x \<le> L + d \<and> p = x mod n) \<longleftrightarrow> (\<exists>e. 0 < e \<and> e \<le> d \<and> p = (if l + e < n then l + e else l + e - n))"
  proof
    assume "\<exists>x. L < x \<and> x \<le> L + d \<and> p = x mod n"
    then obtain x where x: "L < x" "x \<le> L + d" "p = x mod n" by blast
    then have "p = (if l + (x - L) < n then l + (x - L) else l + (x - L) - n)"
      using mod_shift [of l n "x - L" L] l assms(2) by (simp add: l_def)
    then show "\<exists>e. 0 < e \<and> e \<le> d \<and> p = (if l + e < n then l + e else l + e - n)" using x by (intro exI [of _ "x - L"]) auto
  next
    assume "\<exists>e. 0 < e \<and> e \<le> d \<and> p = (if l + e < n then l + e else l + e - n)"
    then obtain e where e: "0 < e" "e \<le> d" "p = (if l + e < n then l + e else l + e - n)" by blast
    then have "p = (L + e) mod n" using mod_shift [of l n e L] l assms(2) by (simp add: l_def)
    then show "\<exists>x. L < x \<and> x \<le> L + d \<and> p = x mod n" using e by (intro exI [of _ "L + e"]) auto
  qed
  have "in_range ((l + 1) mod n) ((L + d) mod n) p \<longleftrightarrow> (\<exists>e. 0 < e \<and> e \<le> d \<and> p = (if l + e < n then l + e else l + e - n))"
  proof
    assume r: "in_range ((l + 1) mod n) ((L + d) mod n) p"
    show "\<exists>e. 0 < e \<and> e \<le> d \<and> p = (if l + e < n then l + e else l + e - n)"
    proof (cases "l < p")
      case True
      then have "p - l \<le> d" using r assms l unfolding to fr in_range_def by (auto split: if_splits)
      then show ?thesis using True assms by (intro exI [of _ "p - l"]) auto
    next
      case False
      then have "p - l + n \<le> d" using r assms l unfolding to fr in_range_def by (auto split: if_splits)
      then show ?thesis using False assms l by (intro exI [of _ "p - l + n"]) auto
    qed
  next
    assume "\<exists>e. 0 < e \<and> e \<le> d \<and> p = (if l + e < n then l + e else l + e - n)"
    then obtain e where e: "0 < e" "e \<le> d" "p = (if l + e < n then l + e else l + e - n)" by blast
    then show "in_range ((l + 1) mod n) ((L + d) mod n) p"
      using assms l unfolding to fr in_range_def by (auto split: if_splits)
  qed
  then show ?thesis unfolding ex l_def .
qed

lemma ring_full:
  fixes n :: int
  assumes "0 \<le> p" "p < n" "n \<le> d"
  shows "\<exists>x. L < x \<and> x \<le> L + d \<and> p = x mod n"
proof -
  let ?x = "L + 1 + (p - (L + 1)) mod n"
  have "0 < n" using assms by linarith
  then have "0 \<le> (p - (L + 1)) mod n" "(p - (L + 1)) mod n < n" by simp_all
  moreover have "?x mod n = p" using assms by (simp add: mod_add_right_eq)
  ultimately show ?thesis using assms(3) by (intro exI [of _ ?x]) auto
qed

lemma mod_neq:
  fixes n :: int
  assumes "0 < d" "d < n"
  shows "(L + d) mod n \<noteq> L mod n"
  using mod_shift [of "L mod n" n d L] assms by (simp split: if_splits)

lemma go_rem_mod [simp]: "0 \<le> a \<Longrightarrow> go_rem a b = a mod b"
  by (simp add: go_rem_def)

text \<open>Exactly the buckets of the seconds since the last update are reset.\<close>

lemma discard_Some:
  assumes "rc_shape rc" "rc_lastUpdateAt rc < now"
  shows "\<exists>b. discardOutdatedValues now rc = Some (rc\<lparr>rc_buckets := b, rc_lastUpdateAt := now\<rparr>) \<and>
    length b = length (rc_buckets rc) \<and>
    (\<forall>p < length b. b ! p = (if \<exists>x. rc_lastUpdateAt rc < x \<and> x \<le> now \<and> int p = (x - rc_t0 rc) mod rc_size rc
       then 0 else rc_buckets rc ! p))"
proof -
  let ?n = "rc_size rc" and ?L = "rc_lastUpdateAt rc - rc_t0 rc" and ?N = "now - rc_t0 rc" and ?d = "now - rc_lastUpdateAt rc"
  have n: "1 \<le> ?n" "int (length (rc_buckets rc)) = ?n" "0 \<le> ?L" using assms(1) by (simp_all add: rc_shape_def)
  have N: "?N = ?L + ?d" "0 \<le> ?N" "0 < ?d" using assms n(3) by auto
  have shift: "(\<exists>x. rc_lastUpdateAt rc < x \<and> x \<le> now \<and> q = (x - rc_t0 rc) mod ?n) \<longleftrightarrow> (\<exists>x. ?L < x \<and> x \<le> ?L + ?d \<and> q = x mod ?n)" for q
  proof
    assume "\<exists>x. rc_lastUpdateAt rc < x \<and> x \<le> now \<and> q = (x - rc_t0 rc) mod ?n"
    then obtain x where "rc_lastUpdateAt rc < x \<and> x \<le> now \<and> q = (x - rc_t0 rc) mod ?n" by blast
    then show "\<exists>x. ?L < x \<and> x \<le> ?L + ?d \<and> q = x mod ?n" by (intro exI [of _ "x - rc_t0 rc"]) auto
  next
    assume "\<exists>x. ?L < x \<and> x \<le> ?L + ?d \<and> q = x mod ?n"
    then obtain x where "?L < x \<and> x \<le> ?L + ?d \<and> q = x mod ?n" by blast
    then show "\<exists>x. rc_lastUpdateAt rc < x \<and> x \<le> now \<and> q = (x - rc_t0 rc) mod ?n" by (intro exI [of _ "x + rc_t0 rc"]) auto
  qed
  define lo hi where ft: "lo = (if ?n \<le> ?d then 0 else (?L mod ?n + 1) mod ?n)" "hi = (if ?n \<le> ?d then ?n - 1 else (?L + ?d) mod ?n)"
  have neq: "?N mod ?n \<noteq> ?L mod ?n" if "\<not> ?n \<le> ?d"
    using mod_neq [of ?d ?n ?L] that N(3) unfolding N(1) by linarith
  have rem: "go_rem ?N ?n = ?N mod ?n" "go_rem ?L ?n = ?L mod ?n" "go_rem (?L mod ?n + 1) ?n = (?L mod ?n + 1) mod ?n"
    using n N(2) by simp_all
  have d: "discardOutdatedValues now rc = map_option (\<lambda>rc. rc\<lparr>rc_lastUpdateAt := now\<rparr>) (resetRange lo hi rc)"
    using assms(2) neq unfolding discardOutdatedValues_def Let_def rem ft N(1) [symmetric] by (simp add: not_le)
  have bounds: "0 \<le> lo" "lo < ?n" "0 \<le> hi" "hi < ?n" using n(1) by (simp_all add: ft)
  obtain b where b: "resetRange lo hi rc = Some (rc\<lparr>rc_buckets := b\<rparr>)" "length b = length (rc_buckets rc)"
    "\<forall>p < length b. b ! p = (if in_range lo hi (int p) then 0 else rc_buckets rc ! p)"
    using resetRange_Some [OF assms(1) bounds] by blast
  have "in_range lo hi (int p) \<longleftrightarrow> (\<exists>x. ?L < x \<and> x \<le> ?L + ?d \<and> int p = x mod ?n)" if "p < length b" for p
  proof -
    have p: "int p < ?n" using that b(2) n(2) by linarith
    show ?thesis
    proof (cases "?n \<le> ?d")
      case True
      then show ?thesis using ring_full [of "int p" ?n ?d ?L] p n by (simp add: ft in_range_def)
    next
      case False
      then show ?thesis using ring_range [of ?d ?n "int p" ?L] p N(3) unfolding ft by simp
    qed
  qed
  then show ?thesis using d b unfolding shift by (intro exI [of _ b]) simp
qed

section \<open>No panic\<close>

lemma rebase_Some:
  assumes "rc_shape rc"
  shows "\<exists>rc'. rebaseIfClockWentBackwards now rc = Some rc' \<and> rc_shape rc' \<and> rc_size rc' = rc_size rc \<and> (rc_t0 rc \<noteq> 0 \<longrightarrow> rc_t0 rc' \<le> now) \<and>
    (rc_t0 rc = 0 \<or> rc_t0 rc \<le> now \<longrightarrow> rc' = rc)"
proof (cases "rc_t0 rc \<noteq> 0 \<and> now < rc_t0 rc")
  case True
  have "0 \<le> rc_size rc - 1" "rc_size rc - 1 < rc_size rc" "0 < rc_size rc" using assms by (simp_all add: rc_shape_def)
  then obtain b where "resetRange 0 (rc_size rc - 1) rc = Some (rc\<lparr>rc_buckets := b\<rparr>)" "length b = length (rc_buckets rc)"
    using resetRange_Some [OF assms, of 0 "rc_size rc - 1"] by auto
  then show ?thesis using True assms by (simp add: rebaseIfClockWentBackwards_def rc_shape_def)
qed (use assms in \<open>auto simp: rebaseIfClockWentBackwards_def\<close>)

lemma discard_shape:
  assumes "rc_shape rc"
  shows "\<exists>rc'. discardOutdatedValues now rc = Some rc' \<and> rc_shape rc' \<and> rc_t0 rc' = rc_t0 rc \<and> rc_size rc' = rc_size rc"
proof (cases "now \<le> rc_lastUpdateAt rc")
  case False
  then show ?thesis using discard_Some [OF assms, of now] assms by (auto simp: rc_shape_def)
qed (use assms in \<open>simp add: discardOutdatedValues_def\<close>)

lemma set_bucket_shape:
  assumes "rc_shape rc" "0 \<le> i" "i < rc_size rc"
  shows "\<exists>rc'. set_bucket i v rc = Some rc' \<and> rc_shape rc' \<and> rc_size rc' = rc_size rc"
  using assms by (simp add: set_bucket_def rc_shape_def)

lemma Add_shape:
  assumes "rc_shape rc"
  shows "\<exists>rc'. Add now delta rc = Some rc' \<and> rc_shape rc' \<and> rc_size rc' = rc_size rc"
proof -
  let ?rc = "if rc_t0 rc = 0 then rc\<lparr>rc_t0 := now, rc_lastUpdateAt := now\<rparr> else rc"
  have s: "rc_shape ?rc" using assms by (simp add: rc_shape_def)
  obtain r where r: "rebaseIfClockWentBackwards now ?rc = Some r" "rc_shape r" "rc_size r = rc_size rc" "rc_t0 r \<le> now"
    using rebase_Some [OF s, of now] by (auto split: if_splits)
  obtain r' where r': "discardOutdatedValues now r = Some r'" "rc_shape r'" "rc_t0 r' = rc_t0 r" "rc_size r' = rc_size r"
    using discard_shape [OF r(2)] by blast
  have idx: "go_rem (now - rc_t0 r') (rc_size r') = (now - rc_t0 r') mod rc_size r'" using r(4) r'(3) by simp
  have "0 < rc_size r'" using r'(2) by (simp add: rc_shape_def)
  then have "\<exists>rc'. set_bucket ((now - rc_t0 r') mod rc_size r') v r' = Some rc' \<and> rc_shape rc' \<and> rc_size rc' = rc_size rc" for v
    using set_bucket_shape [OF r'(2), of "(now - rc_t0 r') mod rc_size r'" v] r(3) r'(4) by simp
  then show ?thesis unfolding Add_def Let_def by (simp add: r(1) r'(1) idx)
qed

text \<open>
  C31 (no clock can crash the counter). Whatever the clock shows, forwards or backwards, no sequence of calls of \<open>Add\<close>
  and \<open>Total\<close> on a new counter indexes out of its buckets or recurses without end.
\<close>

theorem ring_counter_total:
  assumes "NewRingCounter sz = Some rc"
  shows "\<exists>rc'. rc_run ops rc = Some rc' \<and> length (rc_buckets rc') = nat sz"
proof -
  have step: "\<exists>rc'. rc_step c r = Some rc' \<and> rc_shape rc' \<and> rc_size rc' = rc_size r" if "rc_shape r" for c r
  proof (cases c)
    case (OpTotal now)
    obtain a where a: "rebaseIfClockWentBackwards now r = Some a" "rc_shape a" "rc_size a = rc_size r"
      using rebase_Some [OF \<open>rc_shape r\<close>] by blast
    then show ?thesis using discard_shape [OF a(2), of now] OpTotal by (auto simp: Total_def)
  qed (use Add_shape [OF \<open>rc_shape r\<close>] in simp)
  have run: "\<exists>rc'. rc_run ops r = Some rc' \<and> rc_shape rc' \<and> rc_size rc' = rc_size r" if "rc_shape r" for r
    using that
  proof (induction ops arbitrary: r)
    case (Cons c cs)
    obtain r' where r': "rc_step c r = Some r'" "rc_shape r'" "rc_size r' = rc_size r" using step [OF Cons.prems] by blast
    then show ?case using Cons.IH [OF r'(2)] by simp
  qed simp
  have "rc_shape rc" "rc_size rc = sz" using assms by (auto simp: NewRingCounter_def rc_shape_def split: if_splits)
  then show ?thesis using run [of rc] by (auto simp: rc_shape_def)
qed

theorem ring_counter_total_witness:
  "\<exists>rc'. rc_run [OpAdd 100 1, OpTotal 105, OpAdd 98 1, OpAdd 3 1] \<lparr>rc_size = 2, rc_t0 = 0, rc_buckets = [0, 0], rc_lastUpdateAt = 0\<rparr> = Some rc' \<and>
     length (rc_buckets rc') = nat 2"
  by (rule ring_counter_total) (simp add: NewRingCounter_def numeral_2_eq_2)

section \<open>The window\<close>

text \<open>What was added in a second, and since a second.\<close>

definition count_at :: "(int \<times> count) list \<Rightarrow> int \<Rightarrow> count" where
  "count_at es x = sum_list (map snd (filter (\<lambda>e. fst e = x) es))"

definition count_since :: "(int \<times> count) list \<Rightarrow> int \<Rightarrow> count" where
  "count_since es a = sum_list (map snd (filter (\<lambda>e. a < fst e) es))"

definition window_inv :: "(int \<times> count) list \<Rightarrow> RingCounter \<Rightarrow> bool" where
  "window_inv es rc \<longleftrightarrow> rc_shape rc \<and> 0 \<le> rc_t0 rc \<and>
     (rc_t0 rc = 0 \<longrightarrow> es = [] \<and> (\<forall>p < length (rc_buckets rc). rc_buckets rc ! p = 0)) \<and>
     (\<forall>e \<in> set es. fst e \<le> rc_lastUpdateAt rc) \<and>
     (\<forall>x. rc_lastUpdateAt rc - rc_size rc < x \<and> x \<le> rc_lastUpdateAt rc \<longrightarrow>
        rc_buckets rc ! nat ((x - rc_t0 rc) mod rc_size rc) = count_at es x)"

lemma window_inv_new: "NewRingCounter sz = Some rc \<Longrightarrow> window_inv [] rc"
  by (auto simp: NewRingCounter_def window_inv_def rc_shape_def count_at_def nat_less_iff split: if_splits)

lemma count_at_none: "\<forall>e \<in> set es. fst e < x \<Longrightarrow> count_at es x = 0"
proof -
  assume "\<forall>e \<in> set es. fst e < x"
  then have "filter (\<lambda>e. fst e = x) es = []" by (auto simp: filter_empty_conv)
  then show ?thesis by (simp add: count_at_def)
qed

lemma sum_count_at: "(\<Sum>x \<in> {a<..b}. count_at es x) = sum_list (map snd (filter (\<lambda>e. a < fst e \<and> fst e \<le> b) es))"
proof (induction es)
  case (Cons e es)
  have "count_at (e # es) x = (if fst e = x then snd e else 0) + count_at es x" for x by (simp add: count_at_def)
  then have "(\<Sum>x \<in> {a<..b}. count_at (e # es) x) = (\<Sum>x \<in> {a<..b}. if fst e = x then snd e else 0) + (\<Sum>x \<in> {a<..b}. count_at es x)"
    by (simp only: sum.distrib)
  then show ?case using Cons by (simp add: sum.delta')
qed (simp add: count_at_def)

text \<open>Every bucket is the bucket of exactly one second of the window.\<close>

lemma window_seconds:
  fixes n :: int
  assumes "1 \<le> n"
  shows "bij_betw (\<lambda>x. nat ((x - t) mod n)) {b - n<..b} {..<nat n}"
proof (rule bij_betw_imageI)
  show inj: "inj_on (\<lambda>x. nat ((x - t) mod n)) {b - n<..b}"
  proof (rule inj_onI)
    fix x y assume xy: "x \<in> {b - n<..b}" "y \<in> {b - n<..b}" "nat ((x - t) mod n) = nat ((y - t) mod n)"
    then have "(x - t) mod n = (y - t) mod n" using assms by (simp add: nat_eq_iff split: if_splits)
    then have "n dvd x - y" by (simp add: mod_eq_dvd_iff)
    moreover have "\<bar>x - y\<bar> < n" using xy by auto
    ultimately show "x = y" using dvd_imp_le_int [of "x - y" n] by fastforce
  qed
  have "(\<lambda>x. nat ((x - t) mod n)) ` {b - n<..b} \<subseteq> {..<nat n}" using assms by auto
  moreover have "card ((\<lambda>x. nat ((x - t) mod n)) ` {b - n<..b}) = card {..<nat n}" using card_image [OF inj] by simp
  ultimately show "(\<lambda>x. nat ((x - t) mod n)) ` {b - n<..b} = {..<nat n}" by (intro card_subset_eq) auto
qed

lemma window_total:
  assumes "window_inv es rc"
  shows "sum_list (rc_buckets rc) = count_since es (rc_lastUpdateAt rc - rc_size rc)"
proof -
  let ?n = "rc_size rc" and ?b = "rc_lastUpdateAt rc"
  have n: "1 \<le> ?n" "length (rc_buckets rc) = nat ?n" using assms by (auto simp: window_inv_def rc_shape_def)
  have "sum_list (rc_buckets rc) = (\<Sum>p \<in> {..<nat ?n}. rc_buckets rc ! p)"
    using n(2) by (simp add: sum_list_sum_nth lessThan_atLeast0)
  also have "\<dots> = (\<Sum>x \<in> {?b - ?n<..?b}. rc_buckets rc ! nat ((x - rc_t0 rc) mod ?n))"
    using sum.reindex_bij_betw [OF window_seconds [OF n(1), of "rc_t0 rc" ?b], of "\<lambda>p. rc_buckets rc ! p"] by simp
  also have "\<dots> = (\<Sum>x \<in> {?b - ?n<..?b}. count_at es x)" using assms by (intro sum.cong) (auto simp: window_inv_def)
  also have "\<dots> = count_since es (?b - ?n)"
  proof -
    have "filter (\<lambda>e. ?b - ?n < fst e \<and> fst e \<le> ?b) es = filter (\<lambda>e. ?b - ?n < fst e) es"
      using assms by (intro filter_cong) (auto simp: window_inv_def)
    then show ?thesis by (simp add: sum_count_at count_since_def)
  qed
  finally show ?thesis .
qed

section \<open>Calls keep the window\<close>

fun added :: "rc_op list \<Rightarrow> (int \<times> count) list" where
  "added [] = []"
| "added (OpAdd now delta # cs) = (now, delta) # added cs"
| "added (OpTotal now # cs) = added cs"

lemma index_bound: "rc_shape rc \<Longrightarrow> nat ((x - rc_t0 rc) mod rc_size rc) < length (rc_buckets rc)"
proof -
  assume r: "rc_shape rc"
  then have "0 \<le> (x - rc_t0 rc) mod rc_size rc" "(x - rc_t0 rc) mod rc_size rc < rc_size rc" by (simp_all add: rc_shape_def)
  then show ?thesis using r unfolding rc_shape_def by (simp add: nat_less_iff)
qed

lemma mod_inj:
  fixes n :: int
  assumes "x mod n = y mod n" "x - y < n" "y - x < n"
  shows "x = y"
proof (rule ccontr)
  assume "x \<noteq> y"
  then consider "x < y" | "y < x" by linarith
  then show False
    by cases (use assms mod_neq [of "y - x" n x] mod_neq [of "x - y" n y] in auto)
qed

lemma discard_inv:
  assumes "window_inv es rc" "rc_lastUpdateAt rc \<le> now"
  shows "\<exists>b. discardOutdatedValues now rc = Some (rc\<lparr>rc_buckets := b, rc_lastUpdateAt := now\<rparr>) \<and>
    window_inv es (rc\<lparr>rc_buckets := b, rc_lastUpdateAt := now\<rparr>)"
proof (cases "rc_lastUpdateAt rc = now")
  case True
  then have "rc\<lparr>rc_buckets := rc_buckets rc, rc_lastUpdateAt := now\<rparr> = rc" by (cases rc) simp
  then show ?thesis using assms(1) True by (intro exI [of _ "rc_buckets rc"]) (simp only: discardOutdatedValues_def order_refl if_True simp_thms)
next
  case False
  let ?n = "rc_size rc" and ?T = "rc_t0 rc" and ?L = "rc_lastUpdateAt rc"
  have shape: "rc_shape rc" using assms(1) by (simp add: window_inv_def)
  have later: "?L < now" using False assms(2) by simp
  obtain b where b: "discardOutdatedValues now rc = Some (rc\<lparr>rc_buckets := b, rc_lastUpdateAt := now\<rparr>)"
    "length b = length (rc_buckets rc)"
    "\<forall>p < length b. b ! p = (if \<exists>x. ?L < x \<and> x \<le> now \<and> int p = (x - ?T) mod ?n then 0 else rc_buckets rc ! p)"
    using discard_Some [OF shape later] by blast
  have cell: "b ! nat ((x - ?T) mod ?n) = count_at es x" if x: "now - ?n < x" "x \<le> now" for x
  proof -
    let ?p = "nat ((x - ?T) mod ?n)"
    have p: "?p < length b" "int ?p = (x - ?T) mod ?n" using index_bound [OF shape, of x] b(2) shape by (simp_all add: rc_shape_def)
    show ?thesis
    proof (cases "?L < x")
      case True
      then have "b ! ?p = 0" using b(3) p x(2) by auto
      moreover have "filter (\<lambda>e. fst e = x) es = []" using assms(1) True by (fastforce simp: window_inv_def filter_empty_conv)
      ultimately show ?thesis by (simp add: count_at_def)
    next
      case False
      have "\<not> (\<exists>y. ?L < y \<and> y \<le> now \<and> int ?p = (y - ?T) mod ?n)"
      proof
        assume "\<exists>y. ?L < y \<and> y \<le> now \<and> int ?p = (y - ?T) mod ?n"
        then obtain y where y: "?L < y" "y \<le> now" "(x - ?T) mod ?n = (y - ?T) mod ?n" using p(2) by auto
        then have "x - ?T = y - ?T" using mod_inj [of "x - ?T" ?n "y - ?T"] False x by simp
        then show False using y(1) False by simp
      qed
      then have "b ! ?p = rc_buckets rc ! ?p" using b(3) p(1) by auto
      then show ?thesis using assms(1) False x later by (simp add: window_inv_def)
    qed
  qed
  have "window_inv es (rc\<lparr>rc_buckets := b, rc_lastUpdateAt := now\<rparr>)"
    using assms(1) later b(2,3) cell by (fastforce simp: window_inv_def rc_shape_def)
  then show ?thesis using b(1) by blast
qed

lemma rebase_same: "rc_t0 rc \<le> now \<Longrightarrow> rebaseIfClockWentBackwards now rc = Some rc"
  by (simp add: rebaseIfClockWentBackwards_def)

lemma Add_inv:
  assumes "window_inv es rc" "rc_lastUpdateAt rc \<le> now" "0 < now"
  shows "\<exists>rc'. Add now delta rc = Some rc' \<and> window_inv (es @ [(now, delta)]) rc' \<and> rc_lastUpdateAt rc' = now \<and> rc_size rc' = rc_size rc"
proof -
  let ?rc = "if rc_t0 rc = 0 then rc\<lparr>rc_t0 := now, rc_lastUpdateAt := now\<rparr> else rc"
  have inv: "window_inv es ?rc"
  proof (cases "rc_t0 rc = 0")
    case True
    then have "es = []" "\<forall>p < length (rc_buckets rc). rc_buckets rc ! p = 0" "rc_shape (rc\<lparr>rc_t0 := now, rc_lastUpdateAt := now\<rparr>)"
      using assms(1) by (auto simp: window_inv_def rc_shape_def)
    then show ?thesis
      using True assms(3) index_bound [of "rc\<lparr>rc_t0 := now, rc_lastUpdateAt := now\<rparr>"] by (simp add: window_inv_def count_at_def)
  qed (use assms(1) in simp)
  have t0: "rc_t0 ?rc \<le> now" "rc_t0 ?rc \<noteq> 0" "rc_lastUpdateAt ?rc \<le> now"
    using assms by (auto simp: window_inv_def rc_shape_def)
  obtain b where b: "discardOutdatedValues now ?rc = Some (?rc\<lparr>rc_buckets := b, rc_lastUpdateAt := now\<rparr>)"
    "window_inv es (?rc\<lparr>rc_buckets := b, rc_lastUpdateAt := now\<rparr>)"
    using discard_inv [OF inv t0(3)] by blast
  define r where "r = ?rc\<lparr>rc_buckets := b, rc_lastUpdateAt := now\<rparr>"
  have r: "window_inv es r" "rc_t0 r \<le> now" "rc_t0 r \<noteq> 0" "rc_lastUpdateAt r = now" "rc_size r = rc_size rc"
    using b(2) t0 by (simp_all add: r_def)
  let ?i = "(now - rc_t0 r) mod rc_size r"
  have shape: "rc_shape r" using r(1) by (simp add: window_inv_def)
  have i: "nat ?i < length (rc_buckets r)" "0 \<le> ?i" "?i < int (length (rc_buckets r))"
    using index_bound [OF shape, of now] shape by (auto simp: rc_shape_def)
  let ?r = "r\<lparr>rc_buckets := (rc_buckets r)[nat ?i := rc_buckets r ! nat ?i + delta]\<rparr>"
  have "Add now delta rc = Some ?r"
    unfolding Add_def Let_def rebase_same [OF t0(1)] using b(1) i(2,3) r(2) by (simp add: r_def [symmetric] set_bucket_def)
  moreover have "window_inv (es @ [(now, delta)]) ?r"
  proof -
    have cell: "(rc_buckets r)[nat ?i := rc_buckets r ! nat ?i + delta] ! nat ((x - rc_t0 r) mod rc_size r) = count_at (es @ [(now, delta)]) x"
      if x: "now - rc_size r < x" "x \<le> now" for x
    proof (cases "x = now")
      case True
      then show ?thesis using i(1) r(1,4) shape by (simp add: window_inv_def count_at_def rc_shape_def)
    next
      case False
      have "nat ?i \<noteq> nat ((x - rc_t0 r) mod rc_size r)"
      proof
        assume "nat ?i = nat ((x - rc_t0 r) mod rc_size r)"
        moreover have "0 \<le> ?i" "0 \<le> (x - rc_t0 r) mod rc_size r" using shape by (simp_all add: rc_shape_def)
        ultimately have "?i = (x - rc_t0 r) mod rc_size r" by linarith
        then show False using mod_inj [of "now - rc_t0 r" "rc_size r" "x - rc_t0 r"] x False by simp
      qed
      then show ?thesis using x False r(1,4) by (simp add: window_inv_def count_at_def)
    qed
    have "\<forall>e \<in> set es. fst e \<le> now" using r(1,4) by (simp add: window_inv_def)
    then show ?thesis using shape r(1,3,4) cell by (simp add: window_inv_def rc_shape_def)
  qed
  ultimately show ?thesis using r(4,5) by simp
qed

lemma Total_inv:
  assumes "window_inv es rc" "rc_lastUpdateAt rc \<le> now"
  shows "\<exists>rc'. Total now rc = Some (count_since es (now - rc_size rc), rc') \<and> window_inv es rc' \<and> rc_lastUpdateAt rc' = now \<and> rc_size rc' = rc_size rc"
proof -
  have "rc_t0 rc \<le> now" using assms by (simp add: window_inv_def rc_shape_def)
  moreover obtain b where b: "discardOutdatedValues now rc = Some (rc\<lparr>rc_buckets := b, rc_lastUpdateAt := now\<rparr>)"
    "window_inv es (rc\<lparr>rc_buckets := b, rc_lastUpdateAt := now\<rparr>)"
    using discard_inv [OF assms] by blast
  ultimately show ?thesis using window_total [OF b(2)] by (simp add: Total_def rebase_same)
qed

lemma rc_run_inv:
  assumes "window_inv es rc" "sorted (rc_lastUpdateAt rc # map op_time ops @ [now])" "\<forall>c \<in> set ops. 0 < op_time c"
  shows "\<exists>rc'. rc_run ops rc = Some rc' \<and> window_inv (es @ added ops) rc' \<and> rc_lastUpdateAt rc' \<le> now \<and> rc_size rc' = rc_size rc"
  using assms
proof (induction ops arbitrary: es rc)
  case (Cons c cs)
  have "\<exists>rc'. rc_step c rc = Some rc' \<and> window_inv (es @ added [c]) rc' \<and> rc_lastUpdateAt rc' = op_time c \<and> rc_size rc' = rc_size rc"
  proof (cases c)
    case (OpAdd t d)
    then show ?thesis using Add_inv [OF Cons.prems(1), of t d] Cons.prems(2,3) by simp
  next
    case (OpTotal t)
    then show ?thesis using Total_inv [OF Cons.prems(1), of t] Cons.prems(2) by auto
  qed
  then obtain r where r: "rc_step c rc = Some r" "window_inv (es @ added [c]) r" "rc_lastUpdateAt r = op_time c" "rc_size r = rc_size rc" by blast
  have "added (c # cs) = added [c] @ added cs" by (cases c) simp_all
  then show ?case using Cons.IH [OF r(2)] Cons.prems(2,3) r by simp
qed simp

text \<open>
  C9 (the total is the sum over the window). When the clock does not go back, the total of a counter of \<open>sz\<close> seconds is
  the sum, modulo \<open>2 ^ 64\<close>, of what was added in the last \<open>sz\<close> seconds, whatever calls were made before.
\<close>

theorem ring_counter_window:
  assumes "NewRingCounter sz = Some rc" "sorted (map op_time ops @ [now])" "\<forall>c \<in> set ops. 0 < op_time c" "0 \<le> now"
  shows "\<exists>rc' rc''. rc_run ops rc = Some rc' \<and> Total now rc' = Some (count_since (added ops) (now - sz), rc'')"
proof -
  have inv: "window_inv [] rc" using window_inv_new [OF assms(1)] .
  have rc: "rc_lastUpdateAt rc = 0" "rc_size rc = sz" using assms(1) by (auto simp: NewRingCounter_def split: if_splits)
  have "sorted (rc_lastUpdateAt rc # map op_time ops @ [now])" using assms(2-4) rc(1) by auto
  then obtain r where "rc_run ops rc = Some r" "window_inv (added ops) r" "rc_lastUpdateAt r \<le> now" "rc_size r = sz"
    using rc_run_inv [OF inv _ assms(3)] rc(2) by auto
  then show ?thesis using Total_inv [of "added ops" r now] by auto
qed

theorem ring_counter_window_witness:
  "\<exists>rc' rc''. rc_run [OpAdd 10 1, OpAdd 11 2, OpTotal 12, OpAdd 12 4] \<lparr>rc_size = 2, rc_t0 = 0, rc_buckets = [0, 0], rc_lastUpdateAt = 0\<rparr> = Some rc' \<and>
     Total 12 rc' = Some (6, rc'')"
  using ring_counter_window [of 2 "\<lparr>rc_size = 2, rc_t0 = 0, rc_buckets = [0, 0], rc_lastUpdateAt = 0\<rparr>"
      "[OpAdd 10 1, OpAdd 11 2, OpTotal 12, OpAdd 12 4]" 12]
  by (simp add: NewRingCounter_def numeral_2_eq_2 count_since_def)

end
