(* ===== verification/PastPointFilter.thy ===== *)
theory PastPointFilter
  imports Prelude
begin

text \<open>
  The filter of points older than the last one (\<^verbatim>\<open>prometheus/registry/past_point_filter.go\<close>). Families and metrics are
  pointers in slices, so either can be nil. The signature of a map of labels, computed by the
  Prometheus library, is an argument, and so is the clock.
\<close>

section \<open>The filter\<close>

record 'v dto_metric =
  dm_label :: "(string \<times> string) list"
  dm_timestampMs :: int
  dm_value :: 'v

record 'v metric_family =
  mf_name :: string
  mf_metric :: "'v dto_metric option list"

record past_point =
  pp_timestampMs :: int
  pp_recordedAt :: gotime

type_synonym 's latest = "('s, past_point) gomap"

record 's pastPointFilter =
  pf_latest :: "(string, 's latest) gomap"
  pf_purgeInterval :: duration
  pf_lastPurgeAt :: gotime

definition WithPastPointFilter :: "gotime \<Rightarrow> duration \<Rightarrow> 's pastPointFilter" where
  "WithPastPointFilter now purgeInterval = \<lparr>pf_latest = [], pf_purgeInterval = purgeInterval, pf_lastPurgeAt = now\<rparr>"

text \<open>\<open>sig\<close> is \<^verbatim>\<open>model.LabelsToSignature\<close>; of two labels with the same name the last one counts.\<close>

definition labelPairsToSignature :: "((string, string) gomap \<Rightarrow> 's) \<Rightarrow> (string \<times> string) list \<Rightarrow> 's" where
  "labelPairsToSignature sig labelPairs = sig (fold (\<lambda>(name, value) labels. gm_set name value labels) labelPairs [])"

text \<open>The loop over the metrics of a family: the kept ones and the latest points.\<close>

fun filter_metrics :: "((string, string) gomap \<Rightarrow> 's) \<Rightarrow> gotime \<Rightarrow> 'v dto_metric option list \<Rightarrow> 's latest \<Rightarrow> 'v dto_metric option list \<times> 's latest" where
  "filter_metrics sig now [] latest = ([], latest)"
| "filter_metrics sig now (None # ms) latest = filter_metrics sig now ms latest"
| "filter_metrics sig now (Some metric # ms) latest =
     (let signature = labelPairsToSignature sig (dm_label metric); currentTimestamp = dm_timestampMs metric
      in if (case map_of latest signature of Some p \<Rightarrow> currentTimestamp < pp_timestampMs p | None \<Rightarrow> False)
         then filter_metrics sig now ms latest
         else let (kept, latest) = filter_metrics sig now ms
                    (gm_set signature \<lparr>pp_timestampMs = currentTimestamp, pp_recordedAt = now\<rparr> latest)
              in (Some metric # kept, latest))"

text \<open>
  The loop over the families: the slice as it is at the end, the number \<open>f\<close> of families that keep a metric, and the
  state. A family that keeps nothing is not changed.
\<close>

fun filter_families :: "((string, string) gomap \<Rightarrow> 's) \<Rightarrow> gotime \<Rightarrow> 'v metric_family option list \<Rightarrow> 's pastPointFilter \<Rightarrow>
    'v metric_family option list \<times> nat \<times> 's pastPointFilter" where
  "filter_families sig now [] ppf = ([], 0, ppf)"
| "filter_families sig now (None # mfs) ppf =
     (let (out, f, ppf) = filter_families sig now mfs ppf in (None # out, f, ppf))"
| "filter_families sig now (Some mf # mfs) ppf =
     (let (kept, latest) = filter_metrics sig now (mf_metric mf) (gm_get_or [] (pf_latest ppf) (mf_name mf));
          (out, f, ppf) = filter_families sig now mfs (ppf\<lparr>pf_latest := gm_set (mf_name mf) latest (pf_latest ppf)\<rparr>)
      in if kept \<noteq> [] then (Some (mf\<lparr>mf_metric := kept\<rparr>) # out, Suc f, ppf) else (Some mf # out, f, ppf))"

definition runPurge :: "gotime \<Rightarrow> 's pastPointFilter \<Rightarrow> 's pastPointFilter" where
  "runPurge now ppf =
     (if time_sub now (pf_lastPurgeAt ppf) < pf_purgeInterval ppf then ppf
      else ppf\<lparr>pf_latest := filter (\<lambda>e. snd e \<noteq> [])
                 (map (\<lambda>(metric, latest). (metric, filter (\<lambda>(signature, point). \<not> pf_purgeInterval ppf < time_sub now (pp_recordedAt point)) latest))
                   (pf_latest ppf)),
               pf_lastPurgeAt := now\<rparr>)"

text \<open>\<open>filter\<close>, for what the gatherer returned; an error is passed on with the families.\<close>

definition past_filter :: "((string, string) gomap \<Rightarrow> 's) \<Rightarrow> gotime \<Rightarrow> 'v metric_family option list \<Rightarrow> string option \<Rightarrow> 's pastPointFilter \<Rightarrow>
    'v metric_family option list \<times> string option \<times> 's pastPointFilter" where
  "past_filter sig timeNow mfs err ppf =
     (if err \<noteq> None then (mfs, err, ppf)
      else let now = time_truncate timeNow second;
               (out, f, ppf) = filter_families sig now mfs ppf
           in (take f out, None, runPurge now ppf))"

section \<open>What is kept\<close>

text \<open>A metric that is not older than the latest point of its series.\<close>

definition fresh :: "((string, string) gomap \<Rightarrow> 's) \<Rightarrow> 's latest \<Rightarrow> 'v dto_metric \<Rightarrow> bool" where
  "fresh sig latest m \<longleftrightarrow> (\<forall>p. map_of latest (labelPairsToSignature sig (dm_label m)) = Some p \<longrightarrow> pp_timestampMs p \<le> dm_timestampMs m)"

lemma filter_metrics_fresh:
  assumes "filter_metrics sig now ms latest = (kept, latest')" "Some m \<in> set kept"
  shows "Some m \<in> set ms \<and> fresh sig latest m"
  using assms
proof (induction sig now ms latest arbitrary: kept latest' rule: filter_metrics.induct)
  case (3 sig now metric ms latest)
  let ?old = "case map_of latest (labelPairsToSignature sig (dm_label metric)) of Some p \<Rightarrow> dm_timestampMs metric < pp_timestampMs p | None \<Rightarrow> False"
  let ?new = "gm_set (labelPairsToSignature sig (dm_label metric)) \<lparr>pp_timestampMs = dm_timestampMs metric, pp_recordedAt = now\<rparr> latest"
  show ?case
  proof (cases ?old)
    case True
    then show ?thesis using 3 by (simp add: Let_def)
  next
    case False
    obtain k l where k: "filter_metrics sig now ms ?new = (k, l)" by fastforce
    then have kept: "kept = Some metric # k" using False 3(3) by (simp add: Let_def)
    have metric: "fresh sig latest metric" using False by (auto simp: fresh_def not_less split: option.splits)
    show ?thesis
    proof (cases "Some m \<in> set k")
      case True
      then have "Some m \<in> set ms" and f: "fresh sig ?new m" using 3(2) [OF refl refl False k True] by blast+
      moreover have "fresh sig latest m"
      proof (cases "labelPairsToSignature sig (dm_label m) = labelPairsToSignature sig (dm_label metric)")
        case True
        then have "dm_timestampMs metric \<le> dm_timestampMs m" using f by (simp add: fresh_def)
        then show ?thesis using True metric unfolding fresh_def by (metis order_trans)
      qed (use f in \<open>simp add: fresh_def\<close>)
      ultimately show ?thesis by simp
    next
      case False
      then show ?thesis using 3(4) kept metric by simp
    qed
  qed
qed simp_all

lemma filter_metrics_keeps:
  assumes "Some m \<in> set ms" "fresh sig latest m"
  shows "fst (filter_metrics sig now ms latest) \<noteq> []"
  using assms
proof (induction sig now ms latest rule: filter_metrics.induct)
  case (3 sig now metric ms latest)
  show ?case
  proof (cases "case map_of latest (labelPairsToSignature sig (dm_label metric)) of Some p \<Rightarrow> dm_timestampMs metric < pp_timestampMs p | None \<Rightarrow> False")
    case True
    then have "m \<noteq> metric" using 3(4) by (auto simp: fresh_def split: option.splits)
    then show ?thesis using True 3 by (simp add: Let_def)
  next
    case False
    then show ?thesis by (simp add: Let_def case_prod_beta)
  qed
qed simp_all

text \<open>The families after the filter when each keeps something.\<close>

definition kept_from :: "((string, string) gomap \<Rightarrow> 's) \<Rightarrow> (string, 's latest) gomap \<Rightarrow> 'v metric_family \<Rightarrow> 'v metric_family option \<Rightarrow> bool" where
  "kept_from sig latest mf o' \<longleftrightarrow> (\<exists>kept. o' = Some (mf\<lparr>mf_metric := kept\<rparr>) \<and> kept \<noteq> [] \<and>
     (\<forall>m. Some m \<in> set kept \<longrightarrow> Some m \<in> set (mf_metric mf) \<and> fresh sig (gm_get_or [] latest (mf_name mf)) m))"

lemma kept_from_other: "n \<noteq> mf_name mf \<Longrightarrow> kept_from sig (gm_set n l latest) mf o' \<longleftrightarrow> kept_from sig latest mf o'"
  by (simp add: kept_from_def gm_get_or_def)

lemma filter_families_kept:
  assumes "filter_families sig now (map Some mfs) ppf = (out, f, ppf')" "distinct (map mf_name mfs)"
    and "\<forall>mf \<in> set mfs. \<exists>m. Some m \<in> set (mf_metric mf) \<and> fresh sig (gm_get_or [] (pf_latest ppf) (mf_name mf)) m"
  shows "f = length mfs \<and> list_all2 (kept_from sig (pf_latest ppf)) mfs out"
  using assms
proof (induction mfs arbitrary: ppf out f ppf')
  case (Cons mf mfs)
  let ?l = "gm_get_or [] (pf_latest ppf) (mf_name mf)"
  obtain kept l where k: "filter_metrics sig now (mf_metric mf) ?l = (kept, l)" by fastforce
  let ?ppf = "ppf\<lparr>pf_latest := gm_set (mf_name mf) l (pf_latest ppf)\<rparr>"
  obtain out1 f1 ppf1 where r: "filter_families sig now (map Some mfs) ?ppf = (out1, f1, ppf1)" by (metis prod_cases3)
  have ne: "kept \<noteq> []" using Cons.prems(3) filter_metrics_keeps [of _ "mf_metric mf" sig ?l now] k by (metis fst_conv list.set_intros(1))
  have out: "out = Some (mf\<lparr>mf_metric := kept\<rparr>) # out1" "f = Suc f1" using Cons.prems(1) k r ne by simp_all
  have other: "gm_get_or [] (pf_latest ?ppf) (mf_name mf') = gm_get_or [] (pf_latest ppf) (mf_name mf')" if "mf' \<in> set mfs" for mf'
  proof -
    have "mf_name mf' \<in> mf_name ` set mfs" "mf_name mf \<notin> mf_name ` set mfs" using that Cons.prems(2) by simp_all
    then have "mf_name mf' \<noteq> mf_name mf" by metis
    then show ?thesis by (simp add: gm_get_or_def)
  qed
  have "\<forall>mf' \<in> set mfs. \<exists>m. Some m \<in> set (mf_metric mf') \<and> fresh sig (gm_get_or [] (pf_latest ?ppf) (mf_name mf')) m"
    using Cons.prems(3) other by simp
  then have IH: "f1 = length mfs" "list_all2 (kept_from sig (pf_latest ?ppf)) mfs out1"
    using Cons.IH [OF r] Cons.prems(2) by auto
  have "mf_name mf \<noteq> mf_name (mfs ! i)" if "i < length mfs" for i
    using that Cons.prems(2) nth_mem [OF that] by (metis distinct.simps(2) image_eqI list.map(2) list.set_map)
  then have "list_all2 (kept_from sig (pf_latest ppf)) mfs out1"
    using IH(2) by (simp add: list_all2_conv_all_nth kept_from_other)
  moreover have "kept_from sig (pf_latest ppf) mf (Some (mf\<lparr>mf_metric := kept\<rparr>))"
    unfolding kept_from_def using ne filter_metrics_fresh [OF k] by blast
  ultimately show ?case using IH(1) out by simp
qed simp

text \<open>
  C32 (no point goes back in time, when every family keeps one). When no family is nil or twice in the list, and each
  has a point that is not older than the latest of its series, the filter returns every family, reduced to
  points that are not older than the latest point seen for their series.
\<close>

theorem past_filter_fresh:
  assumes "past_filter sig timeNow (map Some mfs) None ppf = (out, err, ppf')" "distinct (map mf_name mfs)"
    and "\<forall>mf \<in> set mfs. \<exists>m. Some m \<in> set (mf_metric mf) \<and> fresh sig (gm_get_or [] (pf_latest ppf) (mf_name mf)) m"
  shows "err = None \<and> list_all2 (kept_from sig (pf_latest ppf)) mfs out"
proof -
  obtain o1 f p1 where r: "filter_families sig (time_truncate timeNow second) (map Some mfs) ppf = (o1, f, p1)" by (metis prod_cases3)
  have "f = length mfs" "list_all2 (kept_from sig (pf_latest ppf)) mfs o1" using filter_families_kept [OF r assms(2,3)] by auto
  then show ?thesis using assms(1) r list_all2_lengthD by (fastforce simp: past_filter_def Let_def)
qed

definition demo_family :: "string \<Rightarrow> int \<Rightarrow> unit metric_family" where
  "demo_family n t = \<lparr>mf_name = n, mf_metric = [Some \<lparr>dm_label = [], dm_timestampMs = t, dm_value = ()\<rparr>]\<rparr>"

definition demo_filter :: "nat pastPointFilter" where
  "demo_filter = \<lparr>pf_latest = [(''cpu'', [(0, \<lparr>pp_timestampMs = 100, pp_recordedAt = 0\<rparr>)])], pf_purgeInterval = 1000, pf_lastPurgeAt = 0\<rparr>"

theorem past_filter_fresh_witness:
  "list_all2 (kept_from (\<lambda>_. 0) (pf_latest demo_filter)) [demo_family ''cpu'' 100, demo_family ''mem'' 5]
     [Some (demo_family ''cpu'' 100), Some (demo_family ''mem'' 5)]"
proof -
  let ?r = "past_filter (\<lambda>_. 0) 0 (map Some [demo_family ''cpu'' 100, demo_family ''mem'' 5]) None demo_filter"
  have out: "fst ?r = [Some (demo_family ''cpu'' 100), Some (demo_family ''mem'' 5)]" by code_simp
  have r: "?r = ([Some (demo_family ''cpu'' 100), Some (demo_family ''mem'' 5)], fst (snd ?r), snd (snd ?r))"
    using out by (metis prod.collapse)
  have "err = None \<and> ?thesis" if "err = fst (snd ?r)" for err
    unfolding that by (rule past_filter_fresh [OF r]) (simp_all add: demo_family_def demo_filter_def fresh_def gm_get_or_def)
  then show ?thesis by blast
qed

text \<open>A family whose points are all of the past keeps nothing.\<close>

lemma filter_metrics_past:
  assumes "\<forall>m. Some m \<in> set ms \<longrightarrow> \<not> fresh sig latest m"
  shows "filter_metrics sig now ms latest = ([], latest)"
  using assms
proof (induction sig now ms latest rule: filter_metrics.induct)
  case (3 sig now metric ms latest)
  have "\<not> fresh sig latest metric" using 3(3) by simp
  then show ?case using 3(1) 3(3) by (auto simp: fresh_def Let_def split: option.splits)
qed simp_all

text \<open>The loop keeps every family at its index.\<close>

lemma filter_families_names:
  assumes "filter_families sig now (map Some mfs) ppf = (out, f, ppf')"
  shows "map (map_option mf_name) out = map (\<lambda>mf. Some (mf_name mf)) mfs \<and> f \<le> length mfs"
  using assms
proof (induction mfs arbitrary: ppf out f ppf')
  case (Cons mf mfs)
  obtain kept l where k: "filter_metrics sig now (mf_metric mf) (gm_get_or [] (pf_latest ppf) (mf_name mf)) = (kept, l)" by fastforce
  let ?ppf = "ppf\<lparr>pf_latest := gm_set (mf_name mf) l (pf_latest ppf)\<rparr>"
  obtain out1 f1 ppf1 where r: "filter_families sig now (map Some mfs) ?ppf = (out1, f1, ppf1)" by (metis prod_cases3)
  show ?case using Cons.prems Cons.IH [OF r] k r by (auto split: if_splits)
qed simp

lemma filter_families_counts:
  assumes "filter_families sig now (map Some mfs) ppf = (out, f, ppf')" "distinct (map mf_name mfs)"
    and "mf \<in> set mfs" "Some m \<in> set (mf_metric mf)" "fresh sig (gm_get_or [] (pf_latest ppf) (mf_name mf)) m"
  shows "0 < f"
  using assms
proof (induction mfs arbitrary: ppf out f ppf')
  case (Cons mf1 mfs)
  let ?l = "gm_get_or [] (pf_latest ppf) (mf_name mf1)"
  obtain kept l where k: "filter_metrics sig now (mf_metric mf1) ?l = (kept, l)" by fastforce
  let ?ppf = "ppf\<lparr>pf_latest := gm_set (mf_name mf1) l (pf_latest ppf)\<rparr>"
  obtain out1 f1 ppf1 where r: "filter_families sig now (map Some mfs) ?ppf = (out1, f1, ppf1)" by (metis prod_cases3)
  show ?case
  proof (cases "mf = mf1")
    case True
    then have "kept \<noteq> []" using filter_metrics_keeps [OF Cons.prems(4), of sig ?l now] Cons.prems(5) k by simp
    then show ?thesis using Cons.prems(1) k r by simp
  next
    case False
    then have mf: "mf \<in> set mfs" using Cons.prems(3) by simp
    then have "mf_name mf \<noteq> mf_name mf1" using Cons.prems(2) by (metis distinct.simps(2) image_eqI list.map(2) list.set_map)
    then have "fresh sig (gm_get_or [] (pf_latest ?ppf) (mf_name mf)) m" using Cons.prems(5) by (simp add: gm_get_or_def)
    then have "0 < f1" using Cons.IH [OF r _ mf Cons.prems(4)] Cons.prems(2) by simp
    then show ?thesis using Cons.prems(1) k r by (auto split: if_splits)
  qed
qed simp

text \<open>
  C36 (a family without new points shifts the result). When the first family has only points of the past, and another
  family has a new one, the filter returns the first family unchanged, with its points of the past, and the families
  that follow it up to an index before the last: the last family is lost, new points included.
\<close>

theorem past_point_emitted:
  assumes "past_filter sig timeNow (map Some (mf # mfs)) None ppf = (out, err, ppf')" "distinct (map mf_name (mf # mfs))"
    and "\<forall>m. Some m \<in> set (mf_metric mf) \<longrightarrow> \<not> fresh sig (gm_get_or [] (pf_latest ppf) (mf_name mf)) m"
    and "mf' \<in> set mfs" "Some m \<in> set (mf_metric mf')" "fresh sig (gm_get_or [] (pf_latest ppf) (mf_name mf')) m"
  shows "(\<exists>rest. out = Some mf # rest) \<and> length out \<le> length mfs \<and>
         map (map_option mf_name) out = take (length out) (map (\<lambda>x. Some (mf_name x)) (mf # mfs))"
proof -
  let ?now = "time_truncate timeNow second" and ?l = "gm_get_or [] (pf_latest ppf) (mf_name mf)"
  let ?ppf = "ppf\<lparr>pf_latest := gm_set (mf_name mf) ?l (pf_latest ppf)\<rparr>"
  have k: "filter_metrics sig ?now (mf_metric mf) ?l = ([], ?l)" by (rule filter_metrics_past [OF assms(3)])
  obtain out1 f1 ppf1 where r: "filter_families sig ?now (map Some mfs) ?ppf = (out1, f1, ppf1)" by (metis prod_cases3)
  have "mf_name mf' \<noteq> mf_name mf" using assms(2,4) by (metis distinct.simps(2) image_eqI list.map(2) list.set_map)
  then have "fresh sig (gm_get_or [] (pf_latest ?ppf) (mf_name mf')) m" using assms(6) by (simp add: gm_get_or_def)
  then have pos: "0 < f1" using filter_families_counts [OF r _ assms(4,5)] assms(2) by simp
  note n = filter_families_names [OF r]
  have len: "length out1 = length mfs" using n by (metis length_map)
  have out: "out = take f1 (Some mf # out1)" using assms(1) k r by (auto simp: past_filter_def Let_def)
  then have "map (map_option mf_name) out = take f1 (map (\<lambda>x. Some (mf_name x)) (mf # mfs))" using n by (simp add: take_map [symmetric])
  moreover have "length out = f1" using out n len by simp
  ultimately show ?thesis using out pos n by (cases f1) auto
qed

theorem past_point_emitted_witness:
  "\<exists>rest. fst (past_filter (\<lambda>_. 0) 0 (map Some [demo_family ''cpu'' 99, demo_family ''mem'' 5]) None demo_filter) =
     Some (demo_family ''cpu'' 99) # rest"
proof -
  let ?p = "past_filter (\<lambda>_. 0) 0 (map Some [demo_family ''cpu'' 99, demo_family ''mem'' 5]) None demo_filter"
  have "?p = (fst ?p, fst (snd ?p), snd (snd ?p))" by simp
  from past_point_emitted [OF this, of "demo_family ''mem'' 5" "\<lparr>dm_label = [], dm_timestampMs = 5, dm_value = ()\<rparr>"] show ?thesis
    by (simp add: demo_family_def demo_filter_def fresh_def gm_get_or_def labelPairsToSignature_def)
qed

end
