(* ===== verification/LogChunker.thy ===== *)
theory LogChunker
  imports Prelude
begin

text \<open>
  The division of logs into chunks (\<^verbatim>\<open>otel/logprocessing/chunker.go\<close>). A \<^verbatim>\<open>plog.Logs\<close> is a list of resources, each with
  its scopes and their records. The marshaller, with the size it announces, and the function that pushes a
  chunk are arguments.
\<close>

section \<open>Logs\<close>

type_synonym ('s, 'l) scope_logs = "'s \<times> 'l list"
type_synonym ('r, 's, 'l) logs = "('r \<times> ('s, 'l) scope_logs list) list"

definition scope_records :: "('s, 'l) scope_logs list \<Rightarrow> ('s \<times> 'l) list" where
  "scope_records scopes = concat (map (\<lambda>(sc, ls). map (Pair sc) ls) scopes)"

text \<open>The records in order, each with its scope and resource.\<close>

definition records :: "('r, 's, 'l) logs \<Rightarrow> ('r \<times> 's \<times> 'l) list" where
  "records ld = concat (map (\<lambda>(r, scopes). map (Pair r) (scope_records scopes)) ld)"

definition LogRecordCount :: "('r, 's, 'l) logs \<Rightarrow> nat" where
  "LogRecordCount ld = sum_list (map (\<lambda>(r, scopes). sum_list (map (\<lambda>(sc, ls). length ls) scopes)) ld)"

text \<open>
  The three loops of \<open>split\<close>. A scope or a resource is appended to a half when its first record is, so one
  without a record in that half is left out. \<open>i\<close> is the number of records seen so far.
\<close>

fun split_records :: "nat \<Rightarrow> nat \<Rightarrow> 'l list \<Rightarrow> 'l list \<times> 'l list \<times> nat" where
  "split_records mid i [] = ([], [], i)"
| "split_records mid i (l # ls) =
     (let (a, b, j) = split_records mid (Suc i) ls in if i < mid then (l # a, b, j) else (a, l # b, j))"

fun split_scopes :: "nat \<Rightarrow> nat \<Rightarrow> ('s, 'l) scope_logs list \<Rightarrow> ('s, 'l) scope_logs list \<times> ('s, 'l) scope_logs list \<times> nat" where
  "split_scopes mid i [] = ([], [], i)"
| "split_scopes mid i ((sc, ls) # scopes) =
     (let (a, b, i) = split_records mid i ls; (as, bs, i) = split_scopes mid i scopes
      in (if a = [] then as else (sc, a) # as, if b = [] then bs else (sc, b) # bs, i))"

fun split_resources :: "nat \<Rightarrow> nat \<Rightarrow> ('r, 's, 'l) logs \<Rightarrow> ('r, 's, 'l) logs \<times> ('r, 's, 'l) logs \<times> nat" where
  "split_resources mid i [] = ([], [], i)"
| "split_resources mid i ((r, scopes) # ld) =
     (let (a, b, i) = split_scopes mid i scopes; (as, bs, i) = split_resources mid i ld
      in (if a = [] then as else (r, a) # as, if b = [] then bs else (r, b) # bs, i))"

definition split :: "('r, 's, 'l) logs \<Rightarrow> ('r, 's, 'l) logs \<times> ('r, 's, 'l) logs" where
  "split ld = (let (a, b, i) = split_resources (LogRecordCount ld div 2) 0 ld in (a, b))"

section \<open>The halves\<close>

lemma scope_records_length: "sum_list (map (\<lambda>(sc, ls). length ls) scopes) = length (scope_records scopes)"
  by (induction scopes) (auto simp: scope_records_def)

lemma LogRecordCount_records: "LogRecordCount ld = length (records ld)"
  unfolding LogRecordCount_def scope_records_length by (induction ld) (auto simp: records_def)

lemma split_records_spec: "split_records mid i ls = (take (mid - i) ls, drop (mid - i) ls, i + length ls)"
proof (induction ls arbitrary: i)
  case (Cons l ls)
  show ?case
  proof (cases "i < mid")
    case True
    then have "mid - i = Suc (mid - Suc i)" by simp
    then show ?thesis using Cons [of "Suc i"] True by simp
  qed (use Cons [of "Suc i"] in simp)
qed simp

lemma split_scopes_spec:
  assumes "split_scopes mid i scopes = (as, bs, j)"
  shows "scope_records as = take (mid - i) (scope_records scopes) \<and> scope_records bs = drop (mid - i) (scope_records scopes) \<and>
    j = i + length (scope_records scopes)"
  using assms
proof (induction scopes arbitrary: i as bs j)
  case Nil
  then show ?case by (simp add: scope_records_def)
next
  case (Cons s scopes)
  obtain sc ls where s: "s = (sc, ls)" by fastforce
  obtain as' bs' j' where r: "split_scopes mid (i + length ls) scopes = (as', bs', j')" by (metis prod_cases3)
  have IH: "scope_records as' = take (mid - (i + length ls)) (scope_records scopes)"
    "scope_records bs' = drop (mid - (i + length ls)) (scope_records scopes)" "j' = i + length ls + length (scope_records scopes)"
    using Cons.IH [OF r] by simp_all
  have out: "as = (if take (mid - i) ls = [] then as' else (sc, take (mid - i) ls) # as')"
    "bs = (if drop (mid - i) ls = [] then bs' else (sc, drop (mid - i) ls) # bs')" "j = j'"
    using Cons.prems r unfolding s by (simp_all add: split_records_spec)
  have cons: "scope_records (if xs = [] then ys else (sc, xs) # ys) = map (Pair sc) xs @ scope_records ys" for xs ys
    by (simp add: scope_records_def)
  have "scope_records (s # scopes) = map (Pair sc) ls @ scope_records scopes" by (simp add: s scope_records_def)
  then show ?case unfolding out cons IH by (simp add: take_map drop_map)
qed

lemma split_resources_spec:
  assumes "split_resources mid i ld = (as, bs, j)"
  shows "records as = take (mid - i) (records ld) \<and> records bs = drop (mid - i) (records ld)"
  using assms
proof (induction ld arbitrary: i as bs j)
  case Nil
  then show ?case by (simp add: records_def)
next
  case (Cons rl ld)
  obtain r scopes where rl: "rl = (r, scopes)" by fastforce
  obtain a b i' where s: "split_scopes mid i scopes = (a, b, i')" by (metis prod_cases3)
  note spec = split_scopes_spec [OF s]
  obtain as' bs' j' where t: "split_resources mid i' ld = (as', bs', j')" by (metis prod_cases3)
  have IH: "records as' = take (mid - i') (records ld)" "records bs' = drop (mid - i') (records ld)"
    using Cons.IH [OF t] by simp_all
  have out: "as = (if a = [] then as' else (r, a) # as')" "bs = (if b = [] then bs' else (r, b) # bs')"
    using Cons.prems s t unfolding rl by simp_all
  have cons: "records (if xs = [] then ys else (r, xs) # ys) = map (Pair r) (scope_records xs) @ records ys" for xs ys
    by (simp add: records_def scope_records_def)
  have "records (rl # ld) = map (Pair r) (scope_records scopes) @ records ld" by (simp add: rl records_def)
  then show ?case unfolding out cons IH using spec by (simp add: take_map drop_map)
qed

lemma split_spec:
  assumes "split ld = (a, b)"
  shows "records a = take (LogRecordCount ld div 2) (records ld)" "records b = drop (LogRecordCount ld div 2) (records ld)"
proof -
  obtain j where "split_resources (LogRecordCount ld div 2) 0 ld = (a, b, j)" using assms by (auto simp: split_def Let_def split: prod.splits)
  then show "records a = take (LogRecordCount ld div 2) (records ld)" "records b = drop (LogRecordCount ld div 2) (records ld)"
    using split_resources_spec by fastforce+
qed

section \<open>Pushing\<close>

text \<open>
  \<open>push\<close> gives the chunks handed to the marshaller, in order, and the errors that are joined. A chunk that can be
  marshalled is handed to the push function.
\<close>

record ('r, 's, 'l) log_env =
  le_LogsSize :: "('r, 's, 'l) logs \<Rightarrow> nat"
  le_MarshalLogs :: "('r, 's, 'l) logs \<Rightarrow> string + string"
  le_pushLogs :: "string \<Rightarrow> string option"

function push :: "('r, 's, 'l) log_env \<Rightarrow> nat \<Rightarrow> ('r, 's, 'l) logs \<Rightarrow> ('r, 's, 'l) logs list \<times> string list" where
  "push E maxChunkSize ld =
     (if 1 < LogRecordCount ld \<and> maxChunkSize < le_LogsSize E ld
      then let (half1, half2) = split ld;
               (c1, e1) = push E maxChunkSize half1; (c2, e2) = push E maxChunkSize half2
           in (c1 @ c2, e1 @ e2)
      else case le_MarshalLogs E ld of
             Inl err \<Rightarrow> ([ld], [err])
           | Inr b \<Rightarrow> ([ld], case le_pushLogs E b of None \<Rightarrow> [] | Some err \<Rightarrow> [err]))"
  by pat_completeness auto
termination
proof (relation "measure (\<lambda>(E, m, ld). LogRecordCount ld)")
  show "((E, m, half1), (E, m, ld)) \<in> measure (\<lambda>(E, m, ld). LogRecordCount ld)"
    if "1 < LogRecordCount ld \<and> m < le_LogsSize E ld" "x = split ld" "(half1, half2) = x"
    for E :: "('r, 's, 'l) log_env" and m ld x half1 half2
    using that split_spec [of ld half1 half2] by (simp add: LogRecordCount_records, linarith)
  show "((E, m, half2), (E, m, ld)) \<in> measure (\<lambda>(E, m, ld). LogRecordCount ld)"
    if "1 < LogRecordCount ld \<and> m < le_LogsSize E ld" "x = split ld" "(half1, half2) = x" "y = push E m half1" "(c1, e1) = y"
    for E :: "('r, 's, 'l) log_env" and m ld x half1 half2 y c1 e1
    using that split_spec [of ld half1 half2] by (simp add: LogRecordCount_records, linarith)
qed simp

declare push.simps [simp del]

text \<open>
  C15 (chunks are complete, in order and small). \<open>push\<close> always ends. The chunks it tries to send hold, one after the other,
  exactly the records of the logs in their order, each with its scope and resource; a chunk is within the
  maximum size unless it holds at most one record; and a chunk that fails does not stop the others.
\<close>

theorem push_chunks:
  "concat (map records (fst (push E maxChunkSize ld))) = records ld \<and>
   (\<forall>c \<in> set (fst (push E maxChunkSize ld)). le_LogsSize E c \<le> maxChunkSize \<or> LogRecordCount c \<le> 1)"
proof (induction E maxChunkSize ld rule: push.induct)
  case (1 E m ld)
  show ?case
  proof (cases "1 < LogRecordCount ld \<and> m < le_LogsSize E ld")
    case True
    obtain a b where s: "split ld = (a, b)" by fastforce
    have p: "fst (push E m ld) = fst (push E m a) @ fst (push E m b)"
      using True s by (subst push.simps) (simp add: case_prod_beta)
    have "records ld = records a @ records b" using split_spec [OF s] by simp
    then show ?thesis
      using "1.IH"(1) [OF True refl s [symmetric]] "1.IH"(2) [OF True refl s [symmetric] refl prod.collapse] unfolding p by auto
  next
    case False
    then have "fst (push E m ld) = [ld]" by (subst push.simps) (auto split: sum.split)
    then show ?thesis using False by auto
  qed
qed

definition demo_log_env :: "(nat, nat, nat) log_env" where
  "demo_log_env = \<lparr>le_LogsSize = \<lambda>ld. 10 * LogRecordCount ld, le_MarshalLogs = \<lambda>_. Inr [], le_pushLogs = \<lambda>_. None\<rparr>"

theorem push_chunks_witness:
  "concat (map records (fst (push demo_log_env 20 [(1, [(5, [7, 8, 9])]), (2, [(6, [3, 4])])]))) =
     [(1, 5, 7), (1, 5, 8), (1, 5, 9), (2, 6, 3), (2, 6, 4)]"
  using push_chunks [of demo_log_env 20 "[(1, [(5, [7, 8, 9])]), (2, [(6, [3, 4])])]"] by (simp add: records_def scope_records_def)

end
