(* ===== verification/Spec2Isabelle.thy ===== *)
theory Spec2Isabelle
  imports StatusCache StoreProofs MqttConnection OpenMqtt SyncRequests NrpeResponder Zabbix
    RingCounter PastPointFilter LogChunker
begin

text \<open>
  \<^bold>\<open>Glouton\<close> is a monitoring agent. Inputs and scrapers gather points, the registry filters and renames them, the
  threshold engine gives them a status, the store keeps the recent ones, and connectors publish them: an open
  MQTT connector, and a cloud connector that also synchronises the agent with its API. Two small servers
  answer the NRPE and Zabbix protocols, and a pipeline forwards logs. All paths below are under \<^verbatim>\<open>src/\<close>.

  \<^bold>\<open>Conventions.\<close> A Go string is a \<open>string\<close> of bytes; a time is an \<open>int\<close> of nanoseconds whose zero value is \<open>0\<close>; a
  duration is an \<open>int\<close>, and \<open>time_sub\<close> saturates as \<^verbatim>\<open>Time.Sub\<close> does; a Go map is an association list, whose order stands for
  one iteration order. The clock, random numbers, files and third-party packages are arguments. An error is a value of
  a sum or option type, and a run-time panic, where one is possible, is \<open>None\<close>. JSON text is its value, in which bytes that are not
  UTF-8 are replaced (\<open>json_text\<close>). Operations that hold a lock are
  functions on the state; where the interleaving matters, goroutines are the steps of an inductive relation.

  \<^bold>\<open>Shared theories.\<close>
  \<^item> \<open>Prelude\<close>: time, durations and Go maps with their simplification rules.
  \<^item> \<open>GoFloat\<close>: \<^verbatim>\<open>float64\<close> as rationals with infinities and NaN, rounding and formatting.
  \<^item> \<open>Types\<close> (\<^verbatim>\<open>types/types.go\<close>, \<^verbatim>\<open>utils/metricutils\<close>): statuses, labels and their text, annotations, points.
  \<^item> \<open>Wire\<close>: integers, checksum, slices and segmented reads, as the two servers use them.

  \<^bold>\<open>Components.\<close>
  \<^item> \<open>ThresholdEngine\<close>, \<open>ThresholdProofs\<close> (\<^verbatim>\<open>threshold/threshold.go\<close>): the state of a metric and its update, thresholds, units
    and the registry. A status becomes critical exactly after a critical run as long as the delay, and a batch acts
    on every series as its own points would, one after the other.
  \<^item> \<open>AgentState\<close>, \<open>StatusCache\<close> (\<^verbatim>\<open>agent/state/state.go\<close> and the persistence of thresholds): the two state files, their
    upgrade and the background writer. Although messages to the writer are dropped, an idle writer leaves the current cache on
    disk unless the last write failed or the file was removed. Setting the credentials is safe against a crash or a
    failed system call at any point. Statuses survive a restart when the loop sees the end of the context in its select.
  \<^item> \<open>Store\<close>, \<open>StoreProofs\<close> (\<^verbatim>\<open>store/store.go\<close>, \<^verbatim>\<open>store/encoded_points.go\<close>): recent points by metric. A push refines an update of
    the abstract series, for every chunk encoder that keeps its samples, below the 65536 samples a chunk can count.
  \<^item> \<open>Fifo\<close>, \<open>MqttConnection\<close>, \<open>MqttClient\<close> (\<^verbatim>\<open>mqtt/client\<close>) and \<open>OpenMqtt\<close> (\<^verbatim>\<open>mqtt/mqtt.go\<close>): the bounded queue with its
    goroutines, the connection loop, publication and acknowledgement. The queue refines a list, keeps the order and
    loses no wake-up; connections are rate limited. A message to retry leaves the queue only acknowledged, or dropped when the
    queue is full or closed as it comes back; a batch of points with a value that is not finite is lost whole.
  \<^item> \<open>SyncState\<close>, \<open>SyncLinks\<close>, \<open>SyncExecution\<close>, \<open>SyncRequests\<close> (\<^verbatim>\<open>bleemeo/internal/synchronizer\<close>: \<^verbatim>\<open>sync.go\<close>, \<^verbatim>\<open>execution.go\<close>, \<^verbatim>\<open>compatibility.go\<close>): pending
    requests, errors, the closure of linked entities and a whole execution. Requests are merged to the strongest and
    earliest, links give the reachable closure, and maintenance loses no request. A later request is kept unless its entity
    was planned; a due request whose entity fails is gone.
  \<^item> \<open>NrpeServer\<close>, \<open>NrpeResponder\<close> (\<^verbatim>\<open>nrpe\<close>) and \<open>Zabbix\<close> (\<^verbatim>\<open>zabbix/zabbix.go\<close>): packets, parsers and handlers. A client decodes the
    answer of the callback, cut to the length of a packet of version 2; arguments of the network are ignored unless allowed; requests that panic are shown.
  \<^item> \<open>RingCounter\<close> (\<^verbatim>\<open>otel/logsource/ringcounter.go\<close>): the total is the sum over the window, and no clock makes it panic.
  \<^item> \<open>PastPointFilter\<close> (\<^verbatim>\<open>prometheus/registry/past_point_filter.go\<close>): what is kept, and a family that shifts the result.
  \<^item> \<open>LogChunker\<close> (\<^verbatim>\<open>otel/logprocessing/chunker.go\<close>): chunks are complete, in order and within the size.

  The components meet in \<open>StatusCache\<close>, where the registry is saved in the agent state; in \<open>MqttClient\<close> and
  \<open>OpenMqtt\<close>, where publication rests on the queue; in \<open>SyncExecution\<close>, where an execution uses the links and the pending
  requests; and in \<open>NrpeResponder\<close>, whose answers the NRPE handler sends.

  \<^bold>\<open>Locales.\<close> Four interfaces are locales, interpreted on the model: \<open>bounded_queue\<close>, the contract of the queue, on the
  ring buffer; \<open>point_store\<close>, what a store may pass to its listeners, on \<open>PushPoints\<close>; \<open>status_cache\<close>, what the threshold registry
  relies on to save its states, on the cache of the agent state; \<open>exec_invariant\<close>, what every call on an execution must keep for
  the whole execution to keep it, on the fixed fields of an execution and on its pending requests.

  \<^bold>\<open>Bounds and termination.\<close> No model is cut off by fuel. Every recursion that is not structural has a termination proof with a
  measure: the versions left for the upgrade of the state, the entities not reached yet for the closure of links,
  the records of the logs for their chunks, the slots in use for a new listener, the text left for the
  parsers, the replacement of text and its check for UTF-8, the points left for the batches. \<open>resetRange\<close>, whose recursion may have no end
  on an arbitrary counter, is a partial function: it is proved to return on every counter that the operations make.

  \<^bold>\<open>Not modelled.\<close>
  \<^item> Calls to the operating system and to third-party libraries: the start-up and wiring of the agent, the inputs, the
    exporters and scrapes, the facts and container runtimes, the configuration loader, the log receivers, the HTTP
    interface, the bridge to JMX, crash reports and telemetry.
  \<^item> The cloud side of MQTT, the metric filter and the synchronizers of the single kinds of API objects: they depend
    on the cache of these objects. What a synchronizer calls and returns is an argument of an execution.
  \<^item> The listeners, TLS certificates and deadlines of the two servers; the options given to the MQTT library; log
    lines and diagnostic pages; the monotonic reading of Go's clock.
  \<^item> The discovery of services, the service checks, the task registry, the debouncer and the buffer of log lines: their
    logic could be modelled in the same way, and is left out of this version.
\<close>

end
